theory Spec2Isabelle
  imports Main
begin

section \<open>Console Presenter\<close>

text \<open>
  JavaScript strings are modelled as \<open>string\<close>. The program compares strings,
  concatenates them, repeats them and tests their first character against the dash; the
  one operation that depends on the alphabet, \<open>toUpperCase\<close>, is taken from the host.
  The escape character that opens every ANSI code is \<open>CHR 0x1B\<close>.
\<close>

subsection \<open>commandLineColors\<close>

definition reset :: string where "reset = CHR 0x1B # ''[0m''"
definition bright :: string where "bright = CHR 0x1B # ''[1m''"
definition dim :: string where "dim = CHR 0x1B # ''[2m''"
definition underscore :: string where "underscore = CHR 0x1B # ''[4m''"
definition blink :: string where "blink = CHR 0x1B # ''[5m''"
definition reverse :: string where "reverse = CHR 0x1B # ''[7m''"
definition hidden :: string where "hidden = CHR 0x1B # ''[8m''"
definition foregroundBlack :: string where "foregroundBlack = CHR 0x1B # ''[30m''"
definition foregroundRed :: string where "foregroundRed = CHR 0x1B # ''[31m''"
definition foregroundGreen :: string where "foregroundGreen = CHR 0x1B # ''[32m''"
definition foregroundYellow :: string where "foregroundYellow = CHR 0x1B # ''[33m''"
definition foregroundBlue :: string where "foregroundBlue = CHR 0x1B # ''[34m''"
definition foregroundMagenta :: string where "foregroundMagenta = CHR 0x1B # ''[35m''"
definition foregroundCyan :: string where "foregroundCyan = CHR 0x1B # ''[36m''"
definition foregroundWhite :: string where "foregroundWhite = CHR 0x1B # ''[37m''"
definition backgroundBlack :: string where "backgroundBlack = CHR 0x1B # ''[40m''"
definition backgroundRed :: string where "backgroundRed = CHR 0x1B # ''[41m''"
definition backgroundGreen :: string where "backgroundGreen = CHR 0x1B # ''[42m''"
definition backgroundYellow :: string where "backgroundYellow = CHR 0x1B # ''[43m''"
definition backgroundBlue :: string where "backgroundBlue = CHR 0x1B # ''[44m''"
definition backgroundMagenta :: string where "backgroundMagenta = CHR 0x1B # ''[45m''"
definition backgroundCyan :: string where "backgroundCyan = CHR 0x1B # ''[46m''"
definition backgroundWhite :: string where "backgroundWhite = CHR 0x1B # ''[47m''"

subsection \<open>commandLineFormats\<close>

text \<open>Each member of \<open>commandLineFormats\<close> is the string of its own name.\<close>

definition f_heading :: string where "f_heading = ''heading''"
definition f_subHeading :: string where "f_subHeading = ''subHeading''"
definition f_default :: string where "f_default = ''default''"
definition f_primary :: string where "f_primary = ''primary''"
definition f_secondary :: string where "f_secondary = ''secondary''"
definition f_success :: string where "f_success = ''success''"
definition f_danger :: string where "f_danger = ''danger''"
definition f_warning :: string where "f_warning = ''warning''"
definition f_info :: string where "f_info = ''info''"
definition f_light :: string where "f_light = ''light''"
definition f_dark :: string where "f_dark = ''dark''"
definition f_terminal :: string where "f_terminal = ''terminal''"

subsection \<open>getCommandLineFormat\<close>

text \<open>
  The body of the \<open>switch\<close>: what one format name appends to \<open>finalFormat\<close>.
  The cases are tried in the order of the source with strict equality; a name that
  matches no case appends nothing.
\<close>

definition format_switch :: "string \<Rightarrow> string" where
  "format_switch format =
     (if format = f_heading then bright
      else if format = f_subHeading then dim
      else if format = f_default then reset
      else if format = f_primary then foregroundBlue
      else if format = f_secondary then foregroundCyan
      else if format = f_success then foregroundGreen
      else if format = f_danger then foregroundRed
      else if format = f_warning then foregroundYellow
      else if format = f_info then foregroundMagenta
      else if format = f_light then foregroundWhite
      else if format = f_dark then foregroundBlack
      else if format = f_terminal then foregroundWhite @ backgroundBlack
      else [])"

text \<open>The \<open>for ... of\<close> loop, with \<open>finalFormat\<close> as the accumulator.\<close>

fun format_loop :: "string \<Rightarrow> string list \<Rightarrow> string" where
  "format_loop finalFormat [] = finalFormat"
| "format_loop finalFormat (format # formats) =
     format_loop (finalFormat @ format_switch format) formats"

definition getCommandLineFormat :: "string list \<Rightarrow> string" where
  "getCommandLineFormat formats = format_loop reset formats"

text \<open>
  The specification's reading of the same function: a table from the recognized
  semantic names to their codes, and a left-to-right fold that starts from the reset
  code.
\<close>

definition semantic_codes :: "(string \<times> string) list" where
  "semantic_codes =
     [(''heading'', bright), (''subHeading'', dim), (''default'', reset),
      (''primary'', foregroundBlue), (''secondary'', foregroundCyan),
      (''success'', foregroundGreen), (''danger'', foregroundRed),
      (''warning'', foregroundYellow), (''info'', foregroundMagenta),
      (''light'', foregroundWhite), (''dark'', foregroundBlack),
      (''terminal'', foregroundWhite @ backgroundBlack)]"

definition code_of_name :: "string \<Rightarrow> string" where
  "code_of_name n = (case map_of semantic_codes n of Some c \<Rightarrow> c | None \<Rightarrow> [])"

definition fold_formats :: "string list \<Rightarrow> string" where
  "fold_formats names = foldl (\<lambda>acc n. acc @ code_of_name n) reset names"

subsection \<open>Console output\<close>

text \<open>
  The console is the list of the calls made to it, oldest first. A call of
  \<open>console.log\<close> is recorded with the arguments it was given, all of them strings in
  this program: the first is the format string when more than one is given. A call of
  \<open>console.table\<close> is recorded with the rows it was given (declared with the Argument
  Router below).
\<close>

record usage_row =
  Flags :: "string list"
  Options :: "string list"
  Description :: string

datatype console_call = Log "string list" | Table "(string \<times> usage_row) list"

subsection \<open>executeCommand\<close>

datatype js_error = Error string | ReferenceError string | TypeError string

text \<open>
  The result object: \<open>res_output\<close> is its \<open>output\<close> field and \<open>res_error\<close> its \<open>error\<close>
  field, which holds the captured standard error after a success and the caught failure
  object after a failure.
\<close>

datatype error_field = Stderr string | Failure js_error

record command_result =
  res_output :: string
  res_error :: error_field

text \<open>
  \<open>execPromise\<close> is the promisified \<open>exec\<close> of the host: awaited on a command it either
  rejects with a failure object (\<open>Inl\<close>), as it does when the command cannot be started
  or exits with a non-zero status, or resolves with the captured standard output and
  standard error (\<open>Inr\<close>). The inner \<open>case\<close> is the \<open>try\<close> block, the outer one the
  \<open>catch\<close>.
\<close>

definition executeCommand ::
  "(string \<Rightarrow> js_error + string \<times> string) \<Rightarrow> string \<Rightarrow> js_error + command_result" where
  "executeCommand execPromise command =
     (case (case execPromise command of
              Inl rejected \<Rightarrow> Inl rejected
            | Inr (stdout, stderr) \<Rightarrow> Inr \<lparr>res_output = stdout, res_error = Stderr stderr\<rparr>) of
        Inr result \<Rightarrow> Inr result
      | Inl caught \<Rightarrow> Inr \<lparr>res_output = [], res_error = Failure caught\<rparr>)"

subsection \<open>outputFormattedLog and printFormattedMessage\<close>

definition outputFormattedLog ::
  "string \<Rightarrow> string \<Rightarrow> string list \<Rightarrow> console_call list \<Rightarrow> console_call list" where
  "outputFormattedLog message colorReference logArgs con =
     con @ [Log ((colorReference @ ''%s'' @ reset) # message # logArgs)]"

text \<open>
  \<open>String.prototype.repeat\<close> converts its count to an integer first: a count that is
  \<open>undefined\<close>, which is what \<open>process.stdout.columns\<close> is when standard output is not a
  terminal, converts to 0 and the result is the empty string.
\<close>

definition repeat :: "string \<Rightarrow> nat option \<Rightarrow> string" where
  "repeat s count = concat (replicate (case count of Some n \<Rightarrow> n | None \<Rightarrow> 0) s)"

text \<open>
  \<open>toUpperCase\<close> is \<open>String.prototype.toUpperCase\<close> of the host and \<open>columns\<close> is
  \<open>process.stdout.columns\<close>. The parameters of the function are taken after their
  defaults have been applied. The last branch is the \<open>default\<close> label of the \<open>switch\<close>.
\<close>

definition printFormattedMessage ::
  "(string \<Rightarrow> string) \<Rightarrow> nat option \<Rightarrow> string \<Rightarrow> string \<Rightarrow> string \<Rightarrow> string list \<Rightarrow>
     console_call list \<Rightarrow> console_call list" where
  "printFormattedMessage toUpperCase columns message messageType messageColor logArgs con =
     (let lineText = repeat ''-'' columns in
      if messageType = f_heading then
        outputFormattedLog lineText (getCommandLineFormat [messageType, messageColor]) logArgs
          (outputFormattedLog (toUpperCase message)
             (getCommandLineFormat [messageType, messageColor]) logArgs
             (outputFormattedLog lineText
                (getCommandLineFormat [messageType, messageColor]) logArgs con))
      else if messageType = f_subHeading then
        outputFormattedLog lineText (getCommandLineFormat [messageType, messageColor]) logArgs
          (outputFormattedLog message
             (getCommandLineFormat [messageType, messageColor]) logArgs con)
      else if messageType = f_default then
        outputFormattedLog message (getCommandLineFormat [messageType, messageColor]) logArgs con
      else if messageType = f_terminal then
        outputFormattedLog ('': '' @ message @ '' '')
          (getCommandLineFormat [messageType, messageColor]) logArgs con
      else
        outputFormattedLog message (getCommandLineFormat [messageType, messageColor]) logArgs con)"

section \<open>Argument Router\<close>

subsection \<open>Objects used as mappings\<close>

text \<open>
  An object is the list of its own properties in the order of their creation.
  \<open>Object.keys\<close> lists the keys that are array indices first, in ascending numeric
  order, and then every other key in the order of creation. An array index is the
  decimal numeral, without a leading zero, of an integer below \<open>2^32 - 1\<close>.
\<close>

type_synonym 'v obj = "(string \<times> 'v) list"

definition is_digit :: "char \<Rightarrow> bool" where
  "is_digit c \<longleftrightarrow> 48 \<le> (of_char c :: nat) \<and> (of_char c :: nat) \<le> 57"

definition dec_value :: "string \<Rightarrow> int" where
  "dec_value s = foldl (\<lambda>n c. 10 * n + (of_char c - 48)) 0 s"

definition is_array_index :: "string \<Rightarrow> bool" where
  "is_array_index s \<longleftrightarrow>
     s \<noteq> [] \<and> list_all is_digit s \<and> (length s = 1 \<or> hd s \<noteq> CHR ''0'')
     \<and> dec_value s < 4294967295"

definition Object_entries :: "'v obj \<Rightarrow> (string \<times> 'v) list" where
  "Object_entries ob =
     sort_key (\<lambda>e. dec_value (fst e)) (filter (\<lambda>e. is_array_index (fst e)) ob)
     @ filter (\<lambda>e. \<not> is_array_index (fst e)) ob"

definition Object_keys :: "'v obj \<Rightarrow> string list" where
  "Object_keys ob = map fst (Object_entries ob)"

definition has_own :: "string \<Rightarrow> 'v obj \<Rightarrow> bool" where
  "has_own k ob \<longleftrightarrow> k \<in> fst ` set ob"

text \<open>
  The assignment \<open>ob[k] = v\<close> on an object created by a literal: an own property is
  overwritten where it stands, a new one is added last. The key \<open>__proto__\<close> is the
  exception: when it is not an own property the assignment reaches the setter
  inherited from \<open>Object.prototype\<close> and creates no property.
\<close>

definition obj_set :: "string \<Rightarrow> 'v \<Rightarrow> 'v obj \<Rightarrow> 'v obj" where
  "obj_set k v ob =
     (if has_own k ob then map (\<lambda>e. if fst e = k then (k, v) else e) ob
      else if k = ''__proto__'' then ob
      else ob @ [(k, v)])"

text \<open>A change made inside the value of an own property, such as \<open>ob[k].push(x)\<close>.\<close>

definition obj_modify :: "string \<Rightarrow> ('v \<Rightarrow> 'v) \<Rightarrow> 'v obj \<Rightarrow> 'v obj" where
  "obj_modify k g ob = map (\<lambda>e. if fst e = k then (k, g (snd e)) else e) ob"

definition obj_delete :: "string \<Rightarrow> 'v obj \<Rightarrow> 'v obj" where
  "obj_delete k ob = filter (\<lambda>e. fst e \<noteq> k) ob"

subsection \<open>Flag definitions, module state and host\<close>

text \<open>
  A flag definition has the fields \<open>name\<close>, \<open>description\<close>, \<open>allowedOptions\<close> (which may
  be absent) and \<open>f\<close>, written here with the prefix \<open>d_\<close>. The handler \<open>f\<close> is one of the
  two built-in functions of the module or a function of the embedding tool. A function of the embedding tool is given
  by what it does with its positional arguments and the console: it raises or not, and
  leaves a new console.
\<close>

datatype handler =
  Help_f
| Version_f
| Host_f "string list \<Rightarrow> console_call list \<Rightarrow> js_error option \<times> console_call list"

record flagdef =
  d_name :: string
  d_description :: string
  d_allowedOptions :: "string list option"
  d_f :: handler

text \<open>
  The calls that \<open>run\<close> makes to handlers, in the order in which it makes them:
  \<open>Invoked\<close> when the handler is called with its arguments, \<open>Settled\<close> when the awaited
  result has resolved, \<open>Rejected\<close> when the handler has raised or its result has been
  rejected.
\<close>

datatype event = Invoked string "string list" | Settled string | Rejected string js_error

type_synonym ref = nat

text \<open>
  The state that the module reads and writes: its two module-level variables, the
  argument list of the process (\<open>None\<close> when \<open>process.argv\<close> is not an array), the
  objects created for parsed arguments with the next unused reference, the console, the
  record of handler calls, and what the built-in version handler of the host does for a
  given tool name (the retrieval of the installed version is an external capability).
\<close>

record state =
  cliToolName :: string
  supportedArguments :: "flagdef obj"
  argv :: "string list option"
  heap :: "ref \<Rightarrow> string list obj option"
  fresh :: ref
  console :: "console_call list"
  trace :: "event list"
  version_host :: "string \<Rightarrow> js_error option \<times> console_call list"

record runParams =
  p_cliToolName :: "string option"
  p_supportedArguments :: "flagdef obj option"

datatype outcome = Returned | Raised js_error | Exited nat

subsection \<open>handleError\<close>

text \<open>The banner is printed, then the error is raised. The message is taken after its default.\<close>

definition handleError :: "state \<Rightarrow> string \<Rightarrow> js_error \<times> state" where
  "handleError st message =
     (Error message,
      st\<lparr>console := console st
           @ [Log [''ERROR: Something went wrong. Run '' @ CHR 0x27 # cliToolName st
                   @ '' -h' for supported usage'']]\<rparr>)"

subsection \<open>parseInputArguments\<close>

definition charAt :: "string \<Rightarrow> nat \<Rightarrow> string" where
  "charAt s i = (if i < length s then [s ! i] else [])"

text \<open>
  The callback of \<open>forEach\<close>, on the pair of \<open>currentArgName\<close> and the object
  \<open>parsedArgs\<close>. Reading a bucket that does not exist gives \<open>undefined\<close>, and calling
  \<open>push\<close> on it raises.
\<close>

definition parse_step ::
  "string \<times> string list obj \<Rightarrow> string \<Rightarrow> js_error + string \<times> string list obj" where
  "parse_step s arg =
     (case s of (currentArgName, parsedArgs) \<Rightarrow>
        if charAt arg 0 = ''-'' then Inr (arg, obj_set arg [] parsedArgs)
        else if has_own currentArgName parsedArgs
          then Inr (currentArgName, obj_modify currentArgName (\<lambda>vs. vs @ [arg]) parsedArgs)
          else Inl (TypeError ''Cannot read properties of undefined (reading 'push')''))"

fun forEach_parse ::
  "string \<times> string list obj \<Rightarrow> string list \<Rightarrow> js_error + string \<times> string list obj" where
  "forEach_parse s [] = Inr s"
| "forEach_parse s (arg # args) =
     (case parse_step s arg of Inl e \<Rightarrow> Inl e | Inr s' \<Rightarrow> forEach_parse s' args)"

text \<open>
  The object is created first and is reachable only through the local variable
  \<open>parsedArgs\<close> while the loop runs, so the loop is run on its value and the result is
  stored under the reference that is returned.
\<close>

definition parseInputArguments :: "state \<Rightarrow> (js_error + ref) \<times> state" where
  "parseInputArguments st =
     (let parsedArgs = fresh st;
          st1 = st\<lparr>heap := (heap st)(parsedArgs \<mapsto> [(''unknowns'', [])]),
                   fresh := Suc (fresh st)\<rparr>
      in case argv st1 of
           None \<Rightarrow> (case handleError st1 ''Invalid arguments'' of (e, st2) \<Rightarrow> (Inl e, st2))
         | Some tokens \<Rightarrow>
             (case forEach_parse (''unknowns'', [(''unknowns'', [])]) tokens of
                Inl e \<Rightarrow> (Inl e, st1)
              | Inr (currentArgName, ob) \<Rightarrow>
                  (Inr parsedArgs, st1\<lparr>heap := (heap st1)(parsedArgs \<mapsto> ob)\<rparr>)))"

subsection \<open>processParsedArguments\<close>

text \<open>The \<open>forEach\<close> over the remaining keys; \<open>handleError\<close> raises out of it.\<close>

fun validate_keys :: "state \<Rightarrow> string list \<Rightarrow> (js_error + unit) \<times> state" where
  "validate_keys st [] = (Inr (), st)"
| "validate_keys st (argName # argNames) =
     (if argName \<notin> set (Object_keys (supportedArguments st))
      then (case handleError st (''Invalid argument: '' @ argName) of
              (e, st') \<Rightarrow> (Inl e, st'))
      else validate_keys st argNames)"

text \<open>
  \<open>processedArgs\<close> is the reference that was passed: the deletion is made in the object
  it denotes, and the same reference is returned. A reference that denotes no object
  stands for \<open>null\<close>, on which \<open>delete\<close> raises. A call without an argument works on a
  new empty object; the model takes the reference after this default.
\<close>

definition processParsedArguments :: "state \<Rightarrow> ref \<Rightarrow> (js_error + ref) \<times> state" where
  "processParsedArguments st parsedArgs =
     (let processedArgs = parsedArgs in
      case heap st processedArgs of
        None \<Rightarrow> (Inl (TypeError ''Cannot convert undefined or null to object''), st)
      | Some ob \<Rightarrow>
          (let st1 = st\<lparr>heap := (heap st)(processedArgs \<mapsto> obj_delete ''unknowns'' ob)\<rparr>
           in case validate_keys st1 (Object_keys (obj_delete ''unknowns'' ob)) of
                (Inl e, st2) \<Rightarrow> (Inl e, st2)
              | (Inr u, st2) \<Rightarrow> (Inr processedArgs, st2)))"

subsection \<open>outputSupportedUsage\<close>

text \<open>
  The callback of \<open>map\<close>, on the object \<open>usage\<close> and one key of \<open>supportedArguments\<close> with
  the definition stored under it. The method \<open>hasOwnProperty\<close> is looked
  up on \<open>usage\<close> itself: once \<open>usage\<close> has an own property of that name, which is a row
  and not a function, the call raises.
\<close>

definition usage_step ::
  "usage_row obj \<Rightarrow> string \<times> flagdef \<Rightarrow> js_error + usage_row obj" where
  "usage_step usage e =
     (case e of (argumentName, d) \<Rightarrow>
        let argName = d_name d in
        if has_own ''hasOwnProperty'' usage
          then Inl (TypeError ''usage.hasOwnProperty is not a function'')
        else if \<not> has_own argName usage then
          Inr (obj_set argName
                 \<lparr>Flags = [argumentName],
                  Options = (case d_allowedOptions d of Some os \<Rightarrow> os | None \<Rightarrow> []),
                  Description = d_description d\<rparr> usage)
        else Inr (obj_modify argName (\<lambda>row. row\<lparr>Flags := Flags row @ [argumentName]\<rparr>) usage))"

fun usage_loop ::
  "usage_row obj \<Rightarrow> (string \<times> flagdef) list \<Rightarrow> js_error + usage_row obj" where
  "usage_loop usage [] = Inr usage"
| "usage_loop usage (e # es) =
     (case usage_step usage e of
        Inl err \<Rightarrow> Inl err
      | Inr usage' \<Rightarrow> usage_loop usage' es)"

definition outputSupportedUsage :: "state \<Rightarrow> (js_error + unit) \<times> state" where
  "outputSupportedUsage st =
     (case usage_loop [] (Object_entries (supportedArguments st)) of
        Inl err \<Rightarrow> (Inl err, st)
      | Inr usage \<Rightarrow>
          (Inr (),
           st\<lparr>console := console st
                @ [Log [cliToolName st @ '' CLI usage below: ''], Table usage]\<rparr>))"

subsection \<open>The built-in registry\<close>

text \<open>The constant \<open>help\<close> of the module.\<close>

definition help_flag :: flagdef where
  "help_flag = \<lparr>d_name = ''help'',
           d_description = ''Prints the currently supported usage of the CLI'',
           d_allowedOptions = None, d_f = Help_f\<rparr>"

text \<open>
  The description of \<open>version\<close> is a template evaluated once, when the module is loaded
  and \<open>cliToolName\<close> still has its initial value.
\<close>

definition version :: flagdef where
  "version = \<lparr>d_name = ''version'',
              d_description = ''Prints the currently installed version of the my-cli CLI'',
              d_allowedOptions = None, d_f = Version_f\<rparr>"

definition builtin_supportedArguments :: "flagdef obj" where
  "builtin_supportedArguments =
     [(''-h'', help_flag), (''--help'', help_flag), (''-v'', version), (''--version'', version)]"

subsection \<open>run\<close>

text \<open>The call \<open>f.call(this, ...args)\<close> of a handler, awaited.\<close>

fun call_handler :: "state \<Rightarrow> handler \<Rightarrow> string list \<Rightarrow> js_error option \<times> state" where
  "call_handler st Help_f args =
     (case outputSupportedUsage st of
        (Inl e, st') \<Rightarrow> (Some e, st')
      | (Inr u, st') \<Rightarrow> (None, st'))"
| "call_handler st Version_f args =
     (case version_host st (cliToolName st) of
        (r, printed) \<Rightarrow> (r, st\<lparr>console := console st @ printed\<rparr>))"
| "call_handler st (Host_f h) args =
     (case h args (console st) of (r, con) \<Rightarrow> (r, st\<lparr>console := con\<rparr>))"

text \<open>
  The loop \<open>for (const argName of Object.keys(processedArgs))\<close> over the entries of the
  processed object. The next handler is called only after the awaited result of the
  current one has resolved; a rejection leaves the loop and \<open>run\<close>.
\<close>

fun dispatch :: "state \<Rightarrow> (string \<times> string list) list \<Rightarrow> outcome \<times> state" where
  "dispatch st [] = (Returned, st)"
| "dispatch st ((argName, args) # rest) =
     (case map_of (supportedArguments st) argName of
        None \<Rightarrow> (Raised (TypeError ''Cannot read properties of undefined (reading 'f')''), st)
      | Some d \<Rightarrow>
          (case call_handler (st\<lparr>trace := trace st @ [Invoked argName args]\<rparr>) (d_f d) args of
             (Some e, st1) \<Rightarrow> (Raised e, st1\<lparr>trace := trace st1 @ [Rejected argName e]\<rparr>)
           | (None, st1) \<Rightarrow> dispatch (st1\<lparr>trace := trace st1 @ [Settled argName]\<rparr>) rest))"

text \<open>The merge of the caller's registry into \<open>supportedArguments\<close>, key by key.\<close>

definition merge_supportedArguments :: "flagdef obj \<Rightarrow> flagdef obj \<Rightarrow> flagdef obj" where
  "merge_supportedArguments given registry =
     foldl (\<lambda>acc e. obj_set (fst e) (snd e) acc) registry (Object_entries given)"

text \<open>
  Everything in \<open>run\<close> from the merge of the registry on. \<open>process.exit(1)\<close> ends the
  process at once: nothing after it runs.
\<close>

definition run_from_merge :: "state \<Rightarrow> runParams \<Rightarrow> outcome \<times> state" where
  "run_from_merge st params =
     (let st1 = st\<lparr>supportedArguments :=
                   merge_supportedArguments
                     (case p_supportedArguments params of Some given \<Rightarrow> given | None \<Rightarrow> [])
                     (supportedArguments st)\<rparr>
      in case parseInputArguments st1 of
           (Inl e, st2) \<Rightarrow> (Raised e, st2)
         | (Inr parsedArgs, st2) \<Rightarrow>
             (case processParsedArguments st2 parsedArgs of
                (Inl e, st3) \<Rightarrow> (Raised e, st3)
              | (Inr processedArgs, st3) \<Rightarrow>
                  (case heap st3 processedArgs of
                     None \<Rightarrow> (Raised (TypeError ''Cannot convert undefined or null to object''), st3)
                   | Some ob \<Rightarrow>
                       if length (Object_keys ob) = 0 then
                         (Exited 1,
                          st3\<lparr>console := console st3
                               @ [Log [''No input flags provided. Run '' @ CHR 0x27 # cliToolName st3
                                       @ '' -h' for supported usage.'']]\<rparr>)
                       else dispatch st3 (Object_entries ob))))"

definition run :: "state \<Rightarrow> runParams \<Rightarrow> outcome \<times> state" where
  "run st params =
     run_from_merge
       (st\<lparr>cliToolName := (case p_cliToolName params of Some n \<Rightarrow> n | None \<Rightarrow> ''my-cli'')\<rparr>)
       params"

subsection \<open>The variant of run in part\_000\<close>

text \<open>
  The names that the variant module binds: the import, the variables and functions
  declared with \<open>let\<close> and \<open>const\<close> at the top level, and inside \<open>run\<close> its parameter. A
  module is strict code, so an assignment to a name that is bound nowhere raises a
  \<open>ReferenceError\<close>; the global object of the host is taken to have no property of that
  name.
\<close>

definition bindings_part_000 :: "string list" where
  "bindings_part_000 =
     [''exec'', ''cliToolName'', ''parseInputArguments'', ''processParsedArguments'',
      ''outputSupportedUsage'', ''handleError'', ''help'', ''version'', ''supportedArguments'',
      ''run'', ''runParams'']"

definition assign_part_000 :: "string \<Rightarrow> js_error + unit" where
  "assign_part_000 identifier =
     (if identifier \<in> set bindings_part_000 then Inr ()
      else Inl (ReferenceError (identifier @ '' is not defined'')))"

definition run_part_000 :: "state \<Rightarrow> runParams \<Rightarrow> outcome \<times> state" where
  "run_part_000 st params =
     (let st1 = st\<lparr>cliToolName :=
                     (case p_cliToolName params of Some n \<Rightarrow> n | None \<Rightarrow> ''my-cli'')\<rparr>
      in case assign_part_000 ''versionNumber'' of
           Inl e \<Rightarrow> (Raised e, st1)
         | Inr u \<Rightarrow> run_from_merge st1 params)"

subsection \<open>The state of a freshly loaded module\<close>

text \<open>
  When the module has been loaded, \<open>cliToolName\<close> and \<open>supportedArguments\<close> have their
  initial values, no object has been created and nothing has been printed. The argument
  list and the version retrieval are the host's.
\<close>

definition loaded ::
  "string list option \<Rightarrow> (string \<Rightarrow> js_error option \<times> console_call list) \<Rightarrow> state" where
  "loaded args vh =
     \<lparr>cliToolName = ''my-cli'', supportedArguments = builtin_supportedArguments,
      argv = args, heap = Map.empty, fresh = 0, console = [], trace = [],
      version_host = vh\<rparr>"

text \<open>A state in which one object of parsed arguments exists, under the reference 0.\<close>

definition with_object :: "string list obj \<Rightarrow> state" where
  "with_object ob =
     (loaded None (\<lambda>n. (None, [])))\<lparr>heap := [0 \<mapsto> ob], fresh := 1\<rparr>"

section \<open>Notions used to state the properties\<close>

text \<open>A flag token is a token whose first character is a dash: the test of the parser.\<close>

definition is_flag :: "string \<Rightarrow> bool" where
  "is_flag t \<longleftrightarrow> charAt t 0 = ''-''"

text \<open>The elements of a list without repetition, each at its first occurrence.\<close>

definition first_occurrences :: "'a list \<Rightarrow> 'a list" where
  "first_occurrences xs = rev (remdups (rev xs))"

text \<open>What follows the last occurrence of \<open>k\<close> in a list in which \<open>k\<close> occurs.\<close>

definition after_last :: "'a \<Rightarrow> 'a list \<Rightarrow> 'a list" where
  "after_last k ts = rev (takeWhile (\<lambda>t. t \<noteq> k) (rev ts))"

text \<open>The tokens at the front of a list up to the first flag token.\<close>

definition values_until_flag :: "string list \<Rightarrow> string list" where
  "values_until_flag ts = takeWhile (\<lambda>t. \<not> is_flag t) ts"

text \<open>The bucket that is current after a scan: the last flag token, if there is one.\<close>

definition current_flag :: "string list \<Rightarrow> string" where
  "current_flag ts =
     (if filter is_flag ts = [] then ''unknowns'' else last (filter is_flag ts))"

text \<open>
  The buckets that the parser leaves for a token sequence: the reserved bucket with the
  tokens in front of the first flag, then one bucket for each flag token, in the order
  of first occurrence, holding the values that follow the last occurrence of the flag.
\<close>

definition flag_buckets :: "string list \<Rightarrow> string list obj" where
  "flag_buckets ts =
     map (\<lambda>k. (k, values_until_flag (after_last k ts))) (first_occurrences (filter is_flag ts))"

definition buckets :: "string list \<Rightarrow> string list obj" where
  "buckets ts = (''unknowns'', values_until_flag ts) # flag_buckets ts"

text \<open>
  The tokens that an object of parsed arguments holds, read bucket by bucket: the values
  of the reserved bucket, and every other key followed by its values.
\<close>

definition flatten :: "string list obj \<Rightarrow> string list" where
  "flatten ob = concat (map (\<lambda>e. if fst e = ''unknowns'' then snd e else fst e # snd e) ob)"

text \<open>
  The scan as the specification words it: a flag token is registered as an empty bucket
  only if it is not already present.
\<close>

definition parse_step_spec ::
  "string \<times> string list obj \<Rightarrow> string \<Rightarrow> string \<times> string list obj" where
  "parse_step_spec s arg =
     (case s of (current, ob) \<Rightarrow>
        if is_flag arg then (arg, if has_own arg ob then ob else ob @ [(arg, [])])
        else (current, obj_modify current (\<lambda>vs. vs @ [arg]) ob))"

definition parse_spec :: "string list \<Rightarrow> string list obj" where
  "parse_spec ts = snd (foldl parse_step_spec (''unknowns'', [(''unknowns'', [])]) ts)"


text \<open>
  The usage table in the words of the specification: one row for each canonical name,
  in the order of first occurrence, listing every token whose definition has that name,
  with the allowed options (or none) and the description of the first such definition.
\<close>

definition usage_table :: "(string \<times> flagdef) list \<Rightarrow> usage_row obj" where
  "usage_table entries =
     map (\<lambda>n. (n,
            \<lparr>Flags = map fst (filter (\<lambda>e. d_name (snd e) = n) entries),
             Options = (case find (\<lambda>e. d_name (snd e) = n) entries of
                          Some e \<Rightarrow> (case d_allowedOptions (snd e) of Some os \<Rightarrow> os | None \<Rightarrow> [])
                        | None \<Rightarrow> []),
             Description = (case find (\<lambda>e. d_name (snd e) = n) entries of
                              Some e \<Rightarrow> d_description (snd e) | None \<Rightarrow> [])\<rparr>))
       (first_occurrences (map (\<lambda>e. d_name (snd e)) entries))"

text \<open>
  The state in which \<open>run\<close> reaches the test for the absence of flags, when the process
  was started with the given tokens and all its flag tokens are in the merged registry:
  the tool name is set, the registry is merged, and the new object holds the buckets of
  the flags.
\<close>

definition before_dispatch :: "state \<Rightarrow> runParams \<Rightarrow> string list \<Rightarrow> state" where
  "before_dispatch st params tokens =
     st\<lparr>cliToolName := (case p_cliToolName params of Some n \<Rightarrow> n | None \<Rightarrow> ''my-cli''),
        supportedArguments :=
          merge_supportedArguments
            (case p_supportedArguments params of Some given \<Rightarrow> given | None \<Rightarrow> [])
            (supportedArguments st),
        heap := (heap st)(fresh st \<mapsto> flag_buckets tokens),
        fresh := Suc (fresh st)\<rparr>"

section \<open>An embedding tool, for the examples\<close>

text \<open>
  A tool named \<open>dx\<close> registers two flags of its own: the handler of \<open>-a\<close> prints its
  arguments, the handler of \<open>-b\<close> raises.
\<close>

definition print_arguments :: handler where
  "print_arguments = Host_f (\<lambda>args con. (None, con @ [Log args]))"



text \<open>
  A registry in which two tokens carry different definitions with one canonical name,
  and a third token carries a definition named \<open>__proto__\<close>.
\<close>

definition shared_name_registry :: "flagdef obj" where
  "shared_name_registry =
     [(''-a'', \<lparr>d_name = ''x'', d_description = ''A'', d_allowedOptions = None,
                d_f = print_arguments\<rparr>),
      (''-b'', \<lparr>d_name = ''x'', d_description = ''B'', d_allowedOptions = Some [''o''],
                d_f = print_arguments\<rparr>),
      (''-p'', \<lparr>d_name = ''__proto__'', d_description = ''P'', d_allowedOptions = None,
                d_f = print_arguments\<rparr>)]"

section \<open>Properties of the Console Presenter\<close>

lemmas commandLineFormats_defs =
  f_heading_def f_subHeading_def f_default_def f_primary_def f_secondary_def f_success_def
  f_danger_def f_warning_def f_info_def f_light_def f_dark_def f_terminal_def

lemma format_loop_concat:
  "format_loop acc formats = acc @ concat (map format_switch formats)"
  by (induction formats arbitrary: acc) simp_all

lemma format_switch_table: "format_switch = code_of_name"
  by (rule ext)
    (simp add: format_switch_def code_of_name_def semantic_codes_def commandLineFormats_defs)

lemma foldl_append_concat:
  "foldl (\<lambda>acc n. acc @ g n) acc names = acc @ concat (map g names)"
  by (induction names arbitrary: acc) simp_all

lemma getCommandLineFormat_concat:
  "getCommandLineFormat formats = reset @ concat (map format_switch formats)"
  by (simp add: getCommandLineFormat_def format_loop_concat)

lemma format_switch_unrecognized:
  "n \<notin> fst ` set semantic_codes \<Longrightarrow> format_switch n = []"
  by (simp add: format_switch_def semantic_codes_def commandLineFormats_defs)

text \<open>
  Claim C6. \<open>getCommandLineFormat\<close> is the left-to-right fold of the specification:
  it starts from the reset code and appends the code of each recognized name, the
  terminal name giving the foreground-white and background-black pair; a name outside
  the table contributes nothing wherever it stands in the sequence; the empty sequence
  and the sequence of one unknown name give exactly the reset code; heading followed by
  primary gives reset, bright, foreground blue in that order.
\<close>

theorem getCommandLineFormat_fold:
  "getCommandLineFormat names = fold_formats names
   \<and> code_of_name ''terminal'' = foregroundWhite @ backgroundBlack
   \<and> (n \<notin> fst ` set semantic_codes \<longrightarrow>
        getCommandLineFormat (before @ [n] @ after) = getCommandLineFormat (before @ after))
   \<and> getCommandLineFormat [] = reset
   \<and> getCommandLineFormat [''unknown-name''] = reset
   \<and> getCommandLineFormat [''heading'', ''primary''] = reset @ bright @ foregroundBlue"
proof -
  have "getCommandLineFormat names = fold_formats names"
    by (simp add: getCommandLineFormat_concat fold_formats_def foldl_append_concat
        format_switch_table)
  moreover have "code_of_name ''terminal'' = foregroundWhite @ backgroundBlack"
    by (simp add: code_of_name_def semantic_codes_def)
  moreover have "n \<notin> fst ` set semantic_codes \<longrightarrow>
      getCommandLineFormat (before @ [n] @ after) = getCommandLineFormat (before @ after)"
    by (simp add: getCommandLineFormat_concat format_switch_unrecognized)
  moreover have "getCommandLineFormat [] = reset"
    by (simp add: getCommandLineFormat_def)
  moreover have "getCommandLineFormat [''unknown-name''] = reset"
    by (simp add: getCommandLineFormat_def format_switch_def commandLineFormats_defs)
  moreover have "getCommandLineFormat [''heading'', ''primary''] = reset @ bright @ foregroundBlue"
    by (simp add: getCommandLineFormat_def format_switch_def commandLineFormats_defs)
  ultimately show ?thesis by blast
qed

theorem getCommandLineFormat_fold_witness:
  "''bold'' \<notin> fst ` set semantic_codes
   \<and> getCommandLineFormat [''heading'', ''bold'', ''danger''] = reset @ bright @ foregroundRed
   \<and> getCommandLineFormat [''heading'', ''bold'', ''danger'']
       = fold_formats [''heading'', ''bold'', ''danger'']
   \<and> getCommandLineFormat ([''heading''] @ [''bold''] @ [''danger''])
       = getCommandLineFormat ([''heading''] @ [''danger''])"
proof -
  have u: "''bold'' \<notin> fst ` set semantic_codes"
    by (simp add: semantic_codes_def)
  have v: "getCommandLineFormat [''heading'', ''bold'', ''danger''] = reset @ bright @ foregroundRed"
    by (simp add: getCommandLineFormat_def format_switch_def commandLineFormats_defs)
  note w = getCommandLineFormat_fold
    [of "[''heading'', ''bold'', ''danger'']" "''bold''" "[''heading'']" "[''danger'']"]
  from w have "getCommandLineFormat [''heading'', ''bold'', ''danger'']
      = fold_formats [''heading'', ''bold'', ''danger'']"
    by (rule conjunct1)
  moreover from w u have "getCommandLineFormat ([''heading''] @ [''bold''] @ [''danger''])
      = getCommandLineFormat ([''heading''] @ [''danger''])"
    by blast
  ultimately show ?thesis using u v by blast
qed

text \<open>
  Claim C5. \<open>executeCommand\<close> never raises: it returns a result for every command and
  every behaviour of the host. When the command succeeds the result holds the captured
  standard output and standard error; when it fails in any way the output is empty and
  the error field holds the failure object.
\<close>

theorem executeCommand_never_raises:
  "(\<exists>result. executeCommand execPromise command = Inr result)
   \<and> (\<forall>stdout stderr. execPromise command = Inr (stdout, stderr) \<longrightarrow>
         executeCommand execPromise command
           = Inr \<lparr>res_output = stdout, res_error = Stderr stderr\<rparr>)
   \<and> (\<forall>failure. execPromise command = Inl failure \<longrightarrow>
         executeCommand execPromise command
           = Inr \<lparr>res_output = [], res_error = Failure failure\<rparr>)"
  by (cases "execPromise command") (auto simp: executeCommand_def)

theorem executeCommand_never_raises_witness:
  "(\<lambda>c. if c = ''exit 3'' then Inl (Error ''Command failed: exit 3'') else Inr (''ok'', []))
       ''exit 3'' = Inl (Error ''Command failed: exit 3'')
   \<and> executeCommand
        (\<lambda>c. if c = ''exit 3'' then Inl (Error ''Command failed: exit 3'') else Inr (''ok'', []))
        ''exit 3''
       = Inr \<lparr>res_output = [], res_error = Failure (Error ''Command failed: exit 3'')\<rparr>
   \<and> executeCommand
        (\<lambda>c. if c = ''exit 3'' then Inl (Error ''Command failed: exit 3'') else Inr (''ok'', []))
        ''echo ok''
       = Inr \<lparr>res_output = ''ok'', res_error = Stderr []\<rparr>"
  using executeCommand_never_raises
    [of "\<lambda>c. if c = ''exit 3'' then Inl (Error ''Command failed: exit 3'') else Inr (''ok'', [])"
        "''exit 3''"]
    executeCommand_never_raises
    [of "\<lambda>c. if c = ''exit 3'' then Inl (Error ''Command failed: exit 3'') else Inr (''ok'', [])"
        "''echo ok''"]
  by simp

lemma repeat_dash: "repeat ''-'' columns = replicate (case columns of Some n \<Rightarrow> n | None \<Rightarrow> 0) CHR ''-''"
  by (induction "case columns of Some n \<Rightarrow> n | None \<Rightarrow> (0::nat)" arbitrary: columns)
    (auto simp: repeat_def split: option.splits)

text \<open>
  Claim C8. With the format type heading, \<open>printFormattedMessage\<close> makes three calls of
  \<open>console.log\<close>, in this order: the separator, the message in upper case, the separator
  again. Each call has the format string made of the style resolved from the format type
  and the format colour, the directive for one string and the reset code, and is passed
  the extra arguments unchanged. The style is the reset code, the bright code and the
  code of the colour. The separator is a line of dashes whose width is the column count
  of the terminal, and 0 when the column count is unavailable.
\<close>

theorem printFormattedMessage_heading:
  "printFormattedMessage toUpperCase columns message ''heading'' messageColor logArgs con =
     con @
     [Log ((getCommandLineFormat [''heading'', messageColor] @ ''%s'' @ reset)
            # replicate (case columns of Some n \<Rightarrow> n | None \<Rightarrow> 0) CHR ''-'' # logArgs),
      Log ((getCommandLineFormat [''heading'', messageColor] @ ''%s'' @ reset)
            # toUpperCase message # logArgs),
      Log ((getCommandLineFormat [''heading'', messageColor] @ ''%s'' @ reset)
            # replicate (case columns of Some n \<Rightarrow> n | None \<Rightarrow> 0) CHR ''-'' # logArgs)]
   \<and> getCommandLineFormat [''heading'', messageColor] = reset @ bright @ code_of_name messageColor
   \<and> length (replicate (case columns of Some n \<Rightarrow> n | None \<Rightarrow> 0) CHR ''-'')
       = (case columns of Some n \<Rightarrow> n | None \<Rightarrow> 0)"
proof -
  have "getCommandLineFormat [''heading'', messageColor] = reset @ bright @ code_of_name messageColor"
    by (simp add: getCommandLineFormat_concat format_switch_table)
      (simp add: code_of_name_def semantic_codes_def)
  then show ?thesis
    by (simp add: printFormattedMessage_def outputFormattedLog_def f_heading_def repeat_dash
        Let_def)
qed

section \<open>Properties of the Argument Router\<close>

text \<open>
  Claim C3. In the variant of part\_000 every call of \<open>run\<close> raises a \<open>ReferenceError\<close> at
  the assignment to \<open>versionNumber\<close>. Only the tool name has been set by then: the
  registry is not merged, no argument is parsed, nothing is printed and no handler is
  called. The call never completes normally.
\<close>

theorem run_part_000_raises:
  "run_part_000 st params =
     (Raised (ReferenceError ''versionNumber is not defined''),
      st\<lparr>cliToolName := (case p_cliToolName params of Some n \<Rightarrow> n | None \<Rightarrow> ''my-cli'')\<rparr>)
   \<and> fst (run_part_000 st params) \<noteq> Returned
   \<and> supportedArguments (snd (run_part_000 st params)) = supportedArguments st
   \<and> heap (snd (run_part_000 st params)) = heap st
   \<and> fresh (snd (run_part_000 st params)) = fresh st
   \<and> console (snd (run_part_000 st params)) = console st
   \<and> trace (snd (run_part_000 st params)) = trace st"
  by (simp add: run_part_000_def assign_part_000_def bindings_part_000_def)

subsection \<open>Objects\<close>

lemma set_Object_entries: "set (Object_entries ob) = set ob"
  by (auto simp: Object_entries_def)

lemma set_Object_keys: "set (Object_keys ob) = fst ` set ob"
  by (simp add: Object_keys_def set_Object_entries)


lemma flag_not_array_index: "charAt k 0 = ''-'' \<Longrightarrow> \<not> is_array_index k"
  by (cases k) (auto simp: charAt_def is_array_index_def is_digit_def split: if_splits)

lemma unknowns_not_array_index: "\<not> is_array_index ''unknowns''"
  by (simp add: is_array_index_def is_digit_def)

lemma Object_entries_no_index:
  "\<forall>e \<in> set ob. \<not> is_array_index (fst e) \<Longrightarrow> Object_entries ob = ob"
  by (simp add: Object_entries_def filter_empty_conv)

lemma Object_keys_no_index:
  "\<forall>e \<in> set ob. \<not> is_array_index (fst e) \<Longrightarrow> Object_keys ob = map fst ob"
  by (simp add: Object_keys_def Object_entries_no_index)

lemma Object_entries_flags:
  "\<forall>k \<in> fst ` set ob. charAt k 0 = ''-'' \<Longrightarrow> Object_entries ob = ob"
  by (rule Object_entries_no_index) (auto dest: flag_not_array_index)

lemma Object_keys_flags:
  "\<forall>k \<in> fst ` set ob. charAt k 0 = ''-'' \<Longrightarrow> Object_keys ob = map fst ob"
  by (simp add: Object_keys_def Object_entries_flags)

lemma map_of_obj_delete: "k' \<noteq> k \<Longrightarrow> map_of (obj_delete k ob) k' = map_of ob k'"
  by (induction ob) (auto simp: obj_delete_def)

lemma obj_delete_absent: "\<not> has_own k ob \<Longrightarrow> obj_delete k ob = ob"
  by (induction ob) (auto simp: obj_delete_def has_own_def)

subsection \<open>Validation\<close>

lemma validate_keys_all:
  "\<forall>k \<in> set ks. k \<in> set (Object_keys (supportedArguments st)) \<Longrightarrow>
     validate_keys st ks = (Inr (), st)"
  by (induction ks) simp_all

lemma validate_keys_first:
  "find (\<lambda>k. k \<notin> set (Object_keys (supportedArguments st))) ks = Some k0 \<Longrightarrow>
     validate_keys st ks =
       (Inl (Error (''Invalid argument: '' @ k0)),
        st\<lparr>console := console st
             @ [Log [''ERROR: Something went wrong. Run '' @ CHR 0x27 # cliToolName st
                     @ '' -h' for supported usage'']]\<rparr>)"
  by (induction ks) (auto simp: handleError_def split: if_splits)

lemma validate_keys_heap: "heap (snd (validate_keys st ks)) = heap st"
  by (induction ks) (auto simp: handleError_def)

lemma validate_keys_Inr: "validate_keys st ks = (Inr u, st') \<Longrightarrow> st' = st"
  by (induction ks) (auto simp: handleError_def split: if_splits)

lemma validate_keys_Inl_iff:
  "(\<exists>e st'. validate_keys st ks = (Inl e, st'))
     \<longleftrightarrow> (\<exists>k \<in> set ks. k \<notin> set (Object_keys (supportedArguments st)))"
  by (induction ks) (auto simp: handleError_def)

lemma heap_same: "heap st r = Some ob \<Longrightarrow> st\<lparr>heap := (heap st)(r \<mapsto> ob)\<rparr> = st"
  by (simp add: fun_upd_idem)

text \<open>
  Claim C10. \<open>processParsedArguments\<close> works in the object it was passed: whatever the
  result, the only change to the store is that the object under the passed reference
  has lost its \<open>unknowns\<close> bucket. When validation succeeds the reference returned is the
  one that was passed and nothing else of the state has changed. The deletion leaves
  every other key with its value sequence, in the same order.
\<close>

theorem processParsedArguments_in_place:
  assumes "heap st parsedArgs = Some ob"
  shows "heap (snd (processParsedArguments st parsedArgs))
           = (heap st)(parsedArgs \<mapsto> obj_delete ''unknowns'' ob)
         \<and> (\<forall>processedArgs. fst (processParsedArguments st parsedArgs) = Inr processedArgs \<longrightarrow>
               processedArgs = parsedArgs
               \<and> snd (processParsedArguments st parsedArgs)
                   = st\<lparr>heap := (heap st)(parsedArgs \<mapsto> obj_delete ''unknowns'' ob)\<rparr>)
         \<and> obj_delete ''unknowns'' ob = filter (\<lambda>e. fst e \<noteq> ''unknowns'') ob
         \<and> (\<forall>k. k \<noteq> ''unknowns'' \<longrightarrow> map_of (obj_delete ''unknowns'' ob) k = map_of ob k)"
proof -
  let ?st1 = "st\<lparr>heap := (heap st)(parsedArgs \<mapsto> obj_delete ''unknowns'' ob)\<rparr>"
  let ?ks = "Object_keys (obj_delete ''unknowns'' ob)"
  obtain r st2 where v: "validate_keys ?st1 ?ks = (r, st2)"
    by (cases "validate_keys ?st1 ?ks")
  have h: "heap st2 = heap ?st1"
    using validate_keys_heap [of ?st1 ?ks] v by simp
  have p: "processParsedArguments st parsedArgs =
      (case r of Inl e \<Rightarrow> (Inl e, st2) | Inr u \<Rightarrow> (Inr parsedArgs, st2))"
    using assms v by (simp add: processParsedArguments_def split: sum.splits)
  have "heap (snd (processParsedArguments st parsedArgs))
      = (heap st)(parsedArgs \<mapsto> obj_delete ''unknowns'' ob)"
    using p h by (simp split: sum.splits)
  moreover have "\<forall>processedArgs. fst (processParsedArguments st parsedArgs) = Inr processedArgs \<longrightarrow>
      processedArgs = parsedArgs \<and> snd (processParsedArguments st parsedArgs) = ?st1"
    using p v validate_keys_Inr [of ?st1 ?ks] by (auto split: sum.splits)
  moreover have "obj_delete ''unknowns'' ob = filter (\<lambda>e. fst e \<noteq> ''unknowns'') ob"
    by (simp add: obj_delete_def)
  moreover have "\<forall>k. k \<noteq> ''unknowns'' \<longrightarrow> map_of (obj_delete ''unknowns'' ob) k = map_of ob k"
    by (simp add: map_of_obj_delete)
  ultimately show ?thesis by blast
qed

theorem processParsedArguments_in_place_witness:
  "heap (with_object [(''unknowns'', [''node'', ''script.js'']), (''-h'', []), (''-v'', [''x''])]) 0
     = Some [(''unknowns'', [''node'', ''script.js'']), (''-h'', []), (''-v'', [''x''])]
   \<and> processParsedArguments
        (with_object [(''unknowns'', [''node'', ''script.js'']), (''-h'', []), (''-v'', [''x''])]) 0
     = (Inr 0, with_object [(''-h'', []), (''-v'', [''x''])])"
proof -
  let ?ob = "[(''unknowns'', [''node'', ''script.js'']), (''-h'', []), (''-v'', [''x''])]"
  have h: "heap (with_object ?ob) 0 = Some ?ob"
    by (simp add: with_object_def loaded_def)
  have d: "obj_delete ''unknowns'' ?ob = [(''-h'', []), (''-v'', [''x''])]"
    by (simp add: obj_delete_def)
  have k: "Object_keys [(''-h'', [] :: string list), (''-v'', [''x''])] = [''-h'', ''-v'']"
    by (rule trans [OF Object_keys_flags]) (simp_all add: charAt_def)
  have r: "Object_keys (supportedArguments (with_object ob')) = [''-h'', ''--help'', ''-v'', ''--version'']"
    for ob'
    by (rule trans [OF Object_keys_flags])
      (simp_all add: with_object_def loaded_def builtin_supportedArguments_def charAt_def)
  have f: "fst (processParsedArguments (with_object ?ob) 0) = Inr 0"
    using h by (simp add: processParsedArguments_def d k r)
  from processParsedArguments_in_place [OF h] f
  have "snd (processParsedArguments (with_object ?ob) 0)
      = (with_object ?ob)\<lparr>heap := (heap (with_object ?ob))(0 \<mapsto> obj_delete ''unknowns'' ?ob)\<rparr>"
    by blast
  then have "snd (processParsedArguments (with_object ?ob) 0)
      = with_object [(''-h'', []), (''-v'', [''x''])]"
    by (simp add: d with_object_def loaded_def)
  with f h show ?thesis
    by (metis prod.collapse)
qed

text \<open>
  Claim C2. For an object of parsed arguments without the reserved bucket,
  \<open>processParsedArguments\<close> raises exactly when some key is not a key of the registry.
  It raises at the first such key in the order of \<open>Object.keys\<close>, with the message that
  names the key, after the error banner has been printed; for keys that are flag tokens
  the order of \<open>Object.keys\<close> is the order of insertion. When every key is in the
  registry it returns the reference it was passed and leaves the whole state, the object
  included, as it was.
\<close>

theorem processParsedArguments_validates:
  assumes "heap st parsedArgs = Some ob" and "\<not> has_own ''unknowns'' ob"
  shows "((\<exists>e st'. processParsedArguments st parsedArgs = (Inl e, st'))
            \<longleftrightarrow> (\<exists>k \<in> fst ` set ob. k \<notin> set (Object_keys (supportedArguments st))))
         \<and> (\<forall>k. find (\<lambda>k. k \<notin> set (Object_keys (supportedArguments st))) (Object_keys ob) = Some k
               \<longrightarrow> processParsedArguments st parsedArgs =
                     (Inl (Error (''Invalid argument: '' @ k)),
                      st\<lparr>console := console st
                           @ [Log [''ERROR: Something went wrong. Run '' @ CHR 0x27 # cliToolName st
                                   @ '' -h' for supported usage'']]\<rparr>))
         \<and> ((\<forall>k \<in> fst ` set ob. k \<in> set (Object_keys (supportedArguments st)))
               \<longrightarrow> processParsedArguments st parsedArgs = (Inr parsedArgs, st))
         \<and> ((\<forall>k \<in> fst ` set ob. charAt k 0 = ''-'') \<longrightarrow> Object_keys ob = map fst ob)"
proof -
  have d: "obj_delete ''unknowns'' ob = ob"
    using assms(2) by (rule obj_delete_absent)
  have s: "st\<lparr>heap := (heap st)(parsedArgs \<mapsto> ob)\<rparr> = st"
    using assms(1) by (rule heap_same)
  have p: "processParsedArguments st parsedArgs =
      (case validate_keys st (Object_keys ob) of
         (Inl e, st2) \<Rightarrow> (Inl e, st2)
       | (Inr u, st2) \<Rightarrow> (Inr parsedArgs, st2))"
    using assms(1) by (simp add: processParsedArguments_def d s)
  have "(\<exists>e st'. processParsedArguments st parsedArgs = (Inl e, st'))
      \<longleftrightarrow> (\<exists>e st'. validate_keys st (Object_keys ob) = (Inl e, st'))"
    unfolding p by (auto split: prod.splits sum.splits)
  then have 1: "(\<exists>e st'. processParsedArguments st parsedArgs = (Inl e, st'))
      \<longleftrightarrow> (\<exists>k \<in> fst ` set ob. k \<notin> set (Object_keys (supportedArguments st)))"
    by (simp only: validate_keys_Inl_iff set_Object_keys)
  have 2: "\<forall>k. find (\<lambda>k. k \<notin> set (Object_keys (supportedArguments st))) (Object_keys ob) = Some k
      \<longrightarrow> processParsedArguments st parsedArgs =
            (Inl (Error (''Invalid argument: '' @ k)),
             st\<lparr>console := console st
                  @ [Log [''ERROR: Something went wrong. Run '' @ CHR 0x27 # cliToolName st
                          @ '' -h' for supported usage'']]\<rparr>)"
    unfolding p by (auto dest: validate_keys_first)
  have 3: "(\<forall>k \<in> fst ` set ob. k \<in> set (Object_keys (supportedArguments st)))
      \<longrightarrow> processParsedArguments st parsedArgs = (Inr parsedArgs, st)"
    unfolding p by (auto simp: validate_keys_all set_Object_keys)
  have 4: "(\<forall>k \<in> fst ` set ob. charAt k 0 = ''-'') \<longrightarrow> Object_keys ob = map fst ob"
    by (rule impI) (rule Object_keys_flags)
  from 1 2 3 4 show ?thesis by blast
qed

theorem processParsedArguments_validates_witness:
  "heap (with_object [(''-h'', []), (''-x'', [''foo'', ''bar'']), (''-y'', [])]) 0
      = Some [(''-h'', []), (''-x'', [''foo'', ''bar'']), (''-y'', [])]
   \<and> \<not> has_own ''unknowns'' [(''-h'', [] :: string list), (''-x'', [''foo'', ''bar'']), (''-y'', [])]
   \<and> processParsedArguments
        (with_object [(''-h'', []), (''-x'', [''foo'', ''bar'']), (''-y'', [])]) 0
      = (Inl (Error ''Invalid argument: -x''),
         (with_object [(''-h'', []), (''-x'', [''foo'', ''bar'']), (''-y'', [])])
           \<lparr>console := [Log [''ERROR: Something went wrong. Run 'my-cli -h' for supported usage'']]\<rparr>)"
proof -
  let ?ob = "[(''-h'', [] :: string list), (''-x'', [''foo'', ''bar'']), (''-y'', [])]"
  have h: "heap (with_object ?ob) 0 = Some ?ob"
    by (simp add: with_object_def loaded_def)
  have u: "\<not> has_own ''unknowns'' ?ob"
    by (simp add: has_own_def)
  have k: "Object_keys ?ob = [''-h'', ''-x'', ''-y'']"
    by (rule trans [OF Object_keys_flags]) (simp_all add: charAt_def)
  have r: "Object_keys (supportedArguments (with_object ?ob)) = [''-h'', ''--help'', ''-v'', ''--version'']"
    by (rule trans [OF Object_keys_flags])
      (simp_all add: with_object_def loaded_def builtin_supportedArguments_def charAt_def)
  have f: "find (\<lambda>k. k \<notin> set (Object_keys (supportedArguments (with_object ?ob)))) (Object_keys ?ob)
      = Some ''-x''"
    by (simp add: k r)
  from processParsedArguments_validates [OF h u] f
  have "processParsedArguments (with_object ?ob) 0 =
      (Inl (Error (''Invalid argument: '' @ ''-x'')),
       (with_object ?ob)\<lparr>console := console (with_object ?ob)
          @ [Log [''ERROR: Something went wrong. Run '' @ CHR 0x27 # cliToolName (with_object ?ob)
                  @ '' -h' for supported usage'']]\<rparr>)"
    by blast
  then show ?thesis using h u
    by (simp add: with_object_def loaded_def)
qed

subsection \<open>The scan of the argument list\<close>

lemma forEach_parse_snoc:
  "forEach_parse s (args @ [arg]) =
     (case forEach_parse s args of Inl e \<Rightarrow> Inl e | Inr s' \<Rightarrow> parse_step s' arg)"
  by (induction args arbitrary: s) (auto split: sum.splits)

lemma first_occurrences_snoc:
  "first_occurrences (xs @ [x]) =
     (if x \<in> set xs then first_occurrences xs else first_occurrences xs @ [x])"
  by (simp add: first_occurrences_def)

lemma set_first_occurrences: "set (first_occurrences xs) = set xs"
  by (simp add: first_occurrences_def)

lemma distinct_first_occurrences: "distinct (first_occurrences xs)"
  by (simp add: first_occurrences_def)

lemma first_occurrences_distinct: "distinct xs \<Longrightarrow> first_occurrences xs = xs"
  by (simp add: first_occurrences_def distinct_remdups_id)

lemma after_last_snoc:
  "after_last k (ts @ [t]) = (if t = k then [] else after_last k ts @ [t])"
  by (simp add: after_last_def)

lemma values_until_flag_snoc:
  "values_until_flag (ts @ [t]) =
     (if \<forall>x \<in> set ts. \<not> is_flag x then (if is_flag t then ts else ts @ [t])
      else values_until_flag ts)"
  by (auto simp: values_until_flag_def takeWhile_append1 takeWhile_append2)

lemma is_flag_not_unknowns: "is_flag k \<Longrightarrow> k \<noteq> ''unknowns''"
  by (auto simp: is_flag_def charAt_def)

lemma is_flag_not_proto: "is_flag k \<Longrightarrow> k \<noteq> ''__proto__''"
  by (auto simp: is_flag_def charAt_def)

lemma has_own_buckets:
  "has_own k (buckets ts) \<longleftrightarrow> k = ''unknowns'' \<or> (is_flag k \<and> k \<in> set ts)"
  by (auto simp: has_own_def buckets_def flag_buckets_def set_first_occurrences image_iff)

lemma after_last_no_flag:
  "k \<in> set ts \<Longrightarrow> is_flag k \<Longrightarrow>
     (\<forall>x \<in> set (after_last k ts). \<not> is_flag x) \<longleftrightarrow> k = current_flag ts"
proof (induction ts rule: rev_induct)
  case Nil
  then show ?case by simp
next
  case (snoc t ts)
  show ?case
  proof (cases "t = k")
    case True
    then show ?thesis using snoc.prems by (simp add: after_last_snoc current_flag_def)
  next
    case False
    with snoc.prems have "k \<in> set ts" by simp
    note ih = snoc.IH [OF this snoc.prems(2)]
    have nonempty: "filter is_flag ts \<noteq> []"
      using \<open>k \<in> set ts\<close> snoc.prems(2) by (auto simp: filter_empty_conv)
    show ?thesis
    proof (cases "is_flag t")
      case True
      then show ?thesis using False by (auto simp: after_last_snoc current_flag_def )
    next
      case f: False
      then show ?thesis using False ih nonempty
        by (auto simp: after_last_snoc current_flag_def )
    qed
  qed
qed

lemma values_until_flag_all: "\<forall>x \<in> set ts. \<not> is_flag x \<Longrightarrow> values_until_flag ts = ts"
  by (simp add: values_until_flag_def)

lemma values_until_flag_snoc_flag:
  "is_flag t \<Longrightarrow> values_until_flag (ts @ [t]) = values_until_flag ts"
  by (induction ts) (simp_all add: values_until_flag_def)

lemma current_flag_snoc:
  "current_flag (ts @ [t]) = (if is_flag t then t else current_flag ts)"
  by (simp add: current_flag_def)

lemma current_flag_cases:
  "(current_flag ts = ''unknowns'' \<and> (\<forall>x \<in> set ts. \<not> is_flag x))
   \<or> (is_flag (current_flag ts) \<and> current_flag ts \<in> set ts)"
proof (cases "filter is_flag ts = []")
  case True
  then show ?thesis by (simp add: current_flag_def filter_empty_conv)
next
  case False
  then have "last (filter is_flag ts) \<in> set (filter is_flag ts)" by (rule last_in_set)
  then show ?thesis using False by (simp add: current_flag_def)
qed

lemma buckets_snoc_flag:
  assumes "is_flag t"
  shows "obj_set t [] (buckets ts) = buckets (ts @ [t])"
proof -
  have u: "t \<noteq> ''unknowns''" and p: "t \<noteq> ''__proto__''"
    using assms by (auto dest: is_flag_not_unknowns is_flag_not_proto)
  have v: "values_until_flag (ts @ [t]) = values_until_flag ts"
    using assms by (rule values_until_flag_snoc_flag)
  have a: "values_until_flag (after_last k (ts @ [t])) =
      (if k = t then [] else values_until_flag (after_last k ts))" for k
    using assms
    by (simp add: after_last_snoc values_until_flag_snoc_flag) (simp add: values_until_flag_def)
  show ?thesis
  proof (cases "t \<in> set ts")
    case True
    then have "has_own t (buckets ts)" using assms by (simp add: has_own_buckets)
    then show ?thesis using True assms u
      by (simp add: obj_set_def buckets_def flag_buckets_def first_occurrences_snoc v a)
  next
    case False
    then have "\<not> has_own t (buckets ts)" using u by (simp add: has_own_buckets)
    then show ?thesis using False assms u p
      by (auto simp: obj_set_def buckets_def flag_buckets_def first_occurrences_snoc v a set_first_occurrences)
  qed
qed

lemma buckets_snoc_value:
  assumes "\<not> is_flag t"
  shows "obj_modify (current_flag ts) (\<lambda>vs. vs @ [t]) (buckets ts) = buckets (ts @ [t])"
proof -
  have k: "values_until_flag (after_last k (ts @ [t])) =
      (if k = current_flag ts then values_until_flag (after_last k ts) @ [t]
       else values_until_flag (after_last k ts))"
    if "k \<in> set ts" "is_flag k" for k
  proof -
    have "t \<noteq> k" using assms that by auto
    then show ?thesis
      using after_last_no_flag [OF that] assms
      by (auto simp: after_last_snoc values_until_flag_snoc values_until_flag_all)
  qed
  from current_flag_cases [of ts] show ?thesis
  proof
    assume c: "current_flag ts = ''unknowns'' \<and> (\<forall>x \<in> set ts. \<not> is_flag x)"
    then have "filter is_flag ts = []" by (simp add: filter_empty_conv)
    then show ?thesis using c assms
      by (simp add: obj_modify_def buckets_def flag_buckets_def values_until_flag_snoc values_until_flag_all
          first_occurrences_def)
  next
    assume c: "is_flag (current_flag ts) \<and> current_flag ts \<in> set ts"
    then have u: "current_flag ts \<noteq> ''unknowns''" by (auto dest: is_flag_not_unknowns)
    have v: "values_until_flag (ts @ [t]) = values_until_flag ts"
      using c by (auto simp: values_until_flag_snoc)
    show ?thesis using u assms
      by (auto simp: obj_modify_def buckets_def flag_buckets_def v k set_first_occurrences)
  qed
qed

lemma forEach_parse_buckets:
  "forEach_parse (''unknowns'', [(''unknowns'', [])]) ts = Inr (current_flag ts, buckets ts)"
proof (induction ts rule: rev_induct)
  case Nil
  show ?case
    by (simp add: current_flag_def buckets_def flag_buckets_def values_until_flag_def first_occurrences_def)
next
  case (snoc t ts)
  have "has_own (current_flag ts) (buckets ts)"
    using current_flag_cases [of ts] by (auto simp: has_own_buckets)
  then show ?case
    using snoc.IH
    by (simp add: forEach_parse_snoc parse_step_def current_flag_snoc buckets_snoc_flag
        buckets_snoc_value is_flag_def [symmetric])
qed

lemma after_last_Cons: "k \<in> set ts \<Longrightarrow> after_last k (t # ts) = after_last k ts"
  by (simp add: after_last_def takeWhile_append1)

lemma after_last_Cons_new:
  assumes "k \<notin> set ts"
  shows "after_last k (k # ts) = ts"
proof -
  have "takeWhile (\<lambda>t. t \<noteq> k) (rev ts @ [k]) = rev ts @ takeWhile (\<lambda>t. t \<noteq> k) [k]"
    by (rule takeWhile_append2) (use assms in auto)
  then show ?thesis by (simp add: after_last_def)
qed

lemma values_until_flag_Cons:
  "values_until_flag (t # ts) = (if is_flag t then [] else t # values_until_flag ts)"
  by (simp add: values_until_flag_def)

lemma flatten_tabulate:
  "\<forall>k \<in> set ks. k \<noteq> ''unknowns'' \<Longrightarrow>
     flatten ((''unknowns'', vs) # map (\<lambda>k. (k, g k)) ks) = vs @ concat (map (\<lambda>k. k # g k) ks)"
  by (induction ks) (simp_all add: flatten_def)

lemma flatten_buckets_distinct:
  "distinct (filter is_flag ts) \<Longrightarrow>
     flatten (buckets ts) =
       values_until_flag ts
       @ concat (map (\<lambda>k. k # values_until_flag (after_last k ts)) (filter is_flag ts))"
  unfolding buckets_def flag_buckets_def
  by (simp add: first_occurrences_distinct flatten_tabulate is_flag_not_unknowns)

lemma flatten_buckets:
  "distinct (filter is_flag ts) \<Longrightarrow> flatten (buckets ts) = ts"
proof (induction ts)
  case Nil
  show ?case
    by (simp add: flatten_def buckets_def flag_buckets_def values_until_flag_def first_occurrences_def)
next
  case (Cons t ts)
  from Cons.prems have d: "distinct (filter is_flag ts)" by (simp split: if_splits)
  have ih: "values_until_flag ts
      @ concat (map (\<lambda>k. k # values_until_flag (after_last k ts)) (filter is_flag ts)) = ts"
    using Cons.IH [OF d] d by (simp add: flatten_buckets_distinct)
  have same: "map (\<lambda>k. k # values_until_flag (after_last k (t # ts))) (filter is_flag ts)
      = map (\<lambda>k. k # values_until_flag (after_last k ts)) (filter is_flag ts)"
    by (rule map_cong) (simp_all add: after_last_Cons)
  show ?case
  proof (cases "is_flag t")
    case True
    with Cons.prems have "t \<notin> set ts" by simp
    then have "after_last t (t # ts) = ts" by (rule after_last_Cons_new)
    then show ?thesis using True Cons.prems ih
      by (simp add: flatten_buckets_distinct values_until_flag_Cons same)
  next
    case False
    then show ?thesis using Cons.prems ih
      by (simp add: flatten_buckets_distinct values_until_flag_Cons same)
  qed
qed

lemma buckets_no_index: "\<forall>e \<in> set (buckets ts). \<not> is_array_index (fst e)"
  by (auto simp: buckets_def flag_buckets_def set_first_occurrences unknowns_not_array_index is_flag_def
      dest: flag_not_array_index)

lemma Object_keys_buckets:
  "Object_keys (buckets ts) = ''unknowns'' # first_occurrences (filter is_flag ts)"
  by (simp add: Object_keys_no_index [OF buckets_no_index]) (simp add: buckets_def flag_buckets_def comp_def)

lemma map_of_tabulate: "k \<in> set ks \<Longrightarrow> map_of (map (\<lambda>k. (k, g k)) ks) k = Some (g k)"
  by (induction ks) auto

lemma map_of_buckets_unknowns: "map_of (buckets ts) ''unknowns'' = Some (values_until_flag ts)"
  by (simp add: buckets_def flag_buckets_def)

lemma map_of_buckets_flag:
  "k \<in> set ts \<Longrightarrow> is_flag k \<Longrightarrow>
     map_of (buckets ts) k = Some (values_until_flag (after_last k ts))"
  by (simp add: buckets_def flag_buckets_def is_flag_not_unknowns map_of_tabulate set_first_occurrences)

lemma parseInputArguments_buckets:
  "argv st = Some tokens \<Longrightarrow>
     parseInputArguments st =
       (Inr (fresh st),
        st\<lparr>heap := (heap st)(fresh st \<mapsto> buckets tokens), fresh := Suc (fresh st)\<rparr>)"
  by (simp add: parseInputArguments_def forEach_parse_buckets Let_def)

lemma foldl_parse_step_spec:
  "distinct (filter is_flag ts) \<Longrightarrow>
     foldl parse_step_spec (''unknowns'', [(''unknowns'', [])]) ts = (current_flag ts, buckets ts)"
proof (induction ts rule: rev_induct)
  case Nil
  show ?case
    by (simp add: current_flag_def buckets_def flag_buckets_def values_until_flag_def first_occurrences_def)
next
  case (snoc t ts)
  from snoc.prems have d: "distinct (filter is_flag ts)" by (simp split: if_splits)
  show ?case
  proof (cases "is_flag t")
    case True
    with snoc.prems have "t \<notin> set ts" by simp
    then have n: "\<not> has_own t (buckets ts)"
      using True by (simp add: has_own_buckets is_flag_not_unknowns)
    then have "buckets ts @ [(t, [])] = obj_set t [] (buckets ts)"
      using True by (simp add: obj_set_def is_flag_not_proto)
    then show ?thesis using snoc.IH [OF d] True n
      by (simp add: parse_step_spec_def current_flag_snoc buckets_snoc_flag)
  next
    case False
    then show ?thesis using snoc.IH [OF d]
      by (simp add: parse_step_spec_def current_flag_snoc buckets_snoc_value)
  qed
qed

lemma parseInputArguments_scan:
  "argv st = Some tokens \<Longrightarrow>
   forEach_parse (''unknowns'', [(''unknowns'', [])]) tokens = Inr (c, ob) \<Longrightarrow>
     parseInputArguments st =
       (Inr (fresh st), st\<lparr>heap := (heap st)(fresh st \<mapsto> ob), fresh := Suc (fresh st)\<rparr>)"
  by (simp add: parseInputArguments_def Let_def)

lemma parse_spec_buckets: "distinct (filter is_flag ts) \<Longrightarrow> parse_spec ts = buckets ts"
  by (simp add: parse_spec_def foldl_parse_step_spec)

text \<open>
  Claim C1, as the code has it. For every token sequence the parser returns a new
  object. Its keys are the reserved key and then the flag tokens in the order of first
  occurrence. The reserved bucket holds the tokens in front of the first flag token. A
  flag token empties its bucket each time it occurs, so the bucket of a flag holds the
  values that follow its last occurrence, up to the next flag token. When no flag token
  occurs twice, the object is the one that the scan of the specification builds, and
  reading it bucket by bucket gives back the token sequence: no token is lost.
\<close>

theorem parseInputArguments_buckets_by_position:
  assumes "argv st = Some tokens"
  shows "parseInputArguments st =
           (Inr (fresh st),
            st\<lparr>heap := (heap st)(fresh st \<mapsto> buckets tokens), fresh := Suc (fresh st)\<rparr>)
         \<and> Object_keys (buckets tokens) = ''unknowns'' # first_occurrences (filter is_flag tokens)
         \<and> map_of (buckets tokens) ''unknowns'' = Some (values_until_flag tokens)
         \<and> (\<forall>k \<in> set tokens. is_flag k \<longrightarrow>
               map_of (buckets tokens) k = Some (values_until_flag (after_last k tokens)))
         \<and> (distinct (filter is_flag tokens) \<longrightarrow>
               buckets tokens = parse_spec tokens \<and> flatten (buckets tokens) = tokens)"
  using assms
  by (simp add: parseInputArguments_buckets Object_keys_buckets map_of_buckets_unknowns
      map_of_buckets_flag parse_spec_buckets flatten_buckets)

theorem parseInputArguments_buckets_by_position_witness:
  "argv (loaded (Some [''node'', ''script.js'', ''-x'', ''foo'', ''bar'']) (\<lambda>n. (None, [])))
     = Some [''node'', ''script.js'', ''-x'', ''foo'', ''bar'']
   \<and> is_flag ''-x'' \<and> ''-x'' \<in> set [''node'', ''script.js'', ''-x'', ''foo'', ''bar'']
   \<and> distinct (filter is_flag [''node'', ''script.js'', ''-x'', ''foo'', ''bar''])
   \<and> buckets [''node'', ''script.js'', ''-x'', ''foo'', ''bar'']
       = [(''unknowns'', [''node'', ''script.js'']), (''-x'', [''foo'', ''bar''])]
   \<and> fst (parseInputArguments
            (loaded (Some [''node'', ''script.js'', ''-x'', ''foo'', ''bar'']) (\<lambda>n. (None, []))))
       = Inr 0
   \<and> heap (snd (parseInputArguments
            (loaded (Some [''node'', ''script.js'', ''-x'', ''foo'', ''bar'']) (\<lambda>n. (None, []))))) 0
       = Some [(''unknowns'', [''node'', ''script.js'']), (''-x'', [''foo'', ''bar''])]
   \<and> map_of (buckets [''node'', ''script.js'', ''-x'', ''foo'', ''bar'']) ''-x''
       = Some [''foo'', ''bar'']
   \<and> flatten (buckets [''node'', ''script.js'', ''-x'', ''foo'', ''bar''])
       = [''node'', ''script.js'', ''-x'', ''foo'', ''bar'']"
proof -
  let ?ts = "[''node'', ''script.js'', ''-x'', ''foo'', ''bar'']"
  let ?st = "loaded (Some ?ts) (\<lambda>n. (None, []))"
  have a: "argv ?st = Some ?ts" by (simp add: loaded_def)
  have f: "is_flag ''-x''" "\<not> is_flag ''node''" "\<not> is_flag ''script.js''" "\<not> is_flag ''foo''"
    "\<not> is_flag ''bar''"
    by (simp_all add: is_flag_def charAt_def)
  have d: "distinct (filter is_flag ?ts)" by (simp add: f)
  have b: "buckets ?ts = [(''unknowns'', [''node'', ''script.js'']), (''-x'', [''foo'', ''bar''])]"
    by (simp add: buckets_def flag_buckets_def values_until_flag_def first_occurrences_def after_last_def f)
  note w = parseInputArguments_buckets_by_position [OF a]
  from w have p: "parseInputArguments ?st =
      (Inr (fresh ?st), ?st\<lparr>heap := (heap ?st)(fresh ?st \<mapsto> buckets ?ts), fresh := Suc (fresh ?st)\<rparr>)"
    by (rule conjunct1)
  have mem: "''-x'' \<in> set ?ts" by simp
  from w have "\<forall>k \<in> set ?ts. is_flag k \<longrightarrow>
      map_of (buckets ?ts) k = Some (values_until_flag (after_last k ?ts))"
    by blast
  with mem f(1)
  have m: "map_of (buckets ?ts) ''-x'' = Some (values_until_flag (after_last ''-x'' ?ts))"
    by blast
  from w d have l: "flatten (buckets ?ts) = ?ts" by blast
  have v: "values_until_flag (after_last ''-x'' ?ts) = [''foo'', ''bar'']"
    by (simp add: values_until_flag_def after_last_def f)
  have "fst (parseInputArguments ?st) = Inr 0"
    by (simp add: p) (simp add: loaded_def)
  moreover have "heap (snd (parseInputArguments ?st)) 0
      = Some [(''unknowns'', [''node'', ''script.js'']), (''-x'', [''foo'', ''bar''])]"
    by (simp add: p b) (simp add: loaded_def)
  ultimately show ?thesis using a f(1) mem d b m v l by (simp only: simp_thms)
qed

theorem parseInputArguments_repeated_flag_counterexample:
  "fst (parseInputArguments
          (loaded (Some [''node'', ''cli.js'', ''-a'', ''x'', ''-a'', ''y'']) (\<lambda>n. (None, []))))
     = Inr 0
   \<and> heap (snd (parseInputArguments
              (loaded (Some [''node'', ''cli.js'', ''-a'', ''x'', ''-a'', ''y'']) (\<lambda>n. (None, []))))) 0
       = Some [(''unknowns'', [''node'', ''cli.js'']), (''-a'', [''y''])]
   \<and> parse_spec [''node'', ''cli.js'', ''-a'', ''x'', ''-a'', ''y'']
       = [(''unknowns'', [''node'', ''cli.js'']), (''-a'', [''x'', ''y''])]
   \<and> ''x'' \<in> set [''node'', ''cli.js'', ''-a'', ''x'', ''-a'', ''y'']
   \<and> ''x'' \<notin> set (concat (map snd [(''unknowns'', [''node'', ''cli.js'']), (''-a'', [''y''])]))"
proof -
  let ?ts = "[''node'', ''cli.js'', ''-a'', ''x'', ''-a'', ''y'']"
  let ?st = "loaded (Some ?ts) (\<lambda>n. (None, []))"
  have f: "is_flag ''-a''" "\<not> is_flag ''x''" "\<not> is_flag ''y''" "\<not> is_flag ''node''"
    "\<not> is_flag ''cli.js''"
    by (simp_all add: is_flag_def charAt_def)
  have c: "charAt ''-a'' 0 = ''-''" "charAt ''x'' 0 \<noteq> ''-''" "charAt ''y'' 0 \<noteq> ''-''"
    "charAt ''node'' 0 \<noteq> ''-''" "charAt ''cli.js'' 0 \<noteq> ''-''"
    by (simp_all add: charAt_def)
  have p: "forEach_parse (''unknowns'', [(''unknowns'', [])]) ?ts
      = Inr (''-a'', [(''unknowns'', [''node'', ''cli.js'']), (''-a'', [''y''])])"
    by (simp add: parse_step_def c obj_set_def obj_modify_def has_own_def)
  have s: "parse_spec ?ts = [(''unknowns'', [''node'', ''cli.js'']), (''-a'', [''x'', ''y''])]"
    by (simp add: parse_spec_def parse_step_spec_def f obj_modify_def has_own_def)
  have a: "argv ?st = Some ?ts"
    by (simp add: loaded_def)
  have r: "parseInputArguments ?st
      = (Inr 0, ?st\<lparr>heap := [0 \<mapsto> [(''unknowns'', [''node'', ''cli.js'']), (''-a'', [''y''])]],
                      fresh := Suc 0\<rparr>)"
    by (simp add: parseInputArguments_scan [OF a p]) (simp add: loaded_def)
  show ?thesis
    by (simp only: r s) simp
qed

subsection \<open>The whole of run\<close>

lemma flag_buckets_flags: "\<forall>k \<in> fst ` set (flag_buckets ts). charAt k 0 = ''-''"
  by (auto simp: flag_buckets_def set_first_occurrences is_flag_def)

lemma obj_delete_buckets: "obj_delete ''unknowns'' (buckets ts) = flag_buckets ts"
proof -
  have "\<not> has_own ''unknowns'' (flag_buckets ts)"
    by (auto simp: has_own_def flag_buckets_def set_first_occurrences
        dest: is_flag_not_unknowns)
  then have "obj_delete ''unknowns'' (flag_buckets ts) = flag_buckets ts"
    by (rule obj_delete_absent)
  then show ?thesis by (simp add: buckets_def obj_delete_def)
qed

lemma processParsedArguments_recognized:
  "heap st r = Some ob \<Longrightarrow>
   st' = st\<lparr>heap := (heap st)(r \<mapsto> obj_delete ''unknowns'' ob)\<rparr> \<Longrightarrow>
   validate_keys st' (Object_keys (obj_delete ''unknowns'' ob)) = (Inr (), st') \<Longrightarrow>
     processParsedArguments st r = (Inr r, st')"
  by (simp add: processParsedArguments_def)

lemma map_fst_flag_buckets: "map fst (flag_buckets ts) = first_occurrences (filter is_flag ts)"
  by (simp add: flag_buckets_def comp_def)

lemma Object_keys_flag_buckets:
  "Object_keys (flag_buckets ts) = first_occurrences (filter is_flag ts)"
  by (simp add: Object_keys_flags [OF flag_buckets_flags] map_fst_flag_buckets)

lemma Object_entries_flag_buckets: "Object_entries (flag_buckets ts) = flag_buckets ts"
  by (rule Object_entries_flags [OF flag_buckets_flags])

lemma flag_buckets_empty: "flag_buckets ts = [] \<longleftrightarrow> (\<forall>t \<in> set ts. \<not> is_flag t)"
  by (simp add: flag_buckets_def first_occurrences_def filter_empty_conv)

lemma run_from_merge_steps:
  "parseInputArguments (st\<lparr>supportedArguments := reg\<rparr>) = (Inr r, st2) \<Longrightarrow>
   processParsedArguments st2 r = (Inr r', st3) \<Longrightarrow>
   heap st3 r' = Some ob \<Longrightarrow>
   reg = merge_supportedArguments
           (case p_supportedArguments params of Some given \<Rightarrow> given | None \<Rightarrow> [])
           (supportedArguments st) \<Longrightarrow>
     run_from_merge st params =
       (if Object_keys ob = [] then
          (Exited 1,
           st3\<lparr>console := console st3
                @ [Log [''No input flags provided. Run '' @ CHR 0x27 # cliToolName st3
                        @ '' -h' for supported usage.'']]\<rparr>)
        else dispatch st3 (Object_entries ob))"
  by (simp add: run_from_merge_def Let_def)

lemma run_recognized:
  assumes "argv st = Some tokens"
    and "\<forall>t \<in> set tokens. is_flag t \<longrightarrow>
           t \<in> set (Object_keys (supportedArguments (before_dispatch st params tokens)))"
  shows "run st params =
    (if flag_buckets tokens = [] then
       (Exited 1,
        (before_dispatch st params tokens)
          \<lparr>console := console st
             @ [Log [''No input flags provided. Run '' @ CHR 0x27
                       # cliToolName (before_dispatch st params tokens)
                     @ '' -h' for supported usage.'']]\<rparr>)
     else dispatch (before_dispatch st params tokens) (flag_buckets tokens))"
proof -
  define st0 where
    "st0 = st\<lparr>cliToolName := (case p_cliToolName params of Some n \<Rightarrow> n | None \<Rightarrow> ''my-cli'')\<rparr>"
  define reg where
    "reg = merge_supportedArguments
       (case p_supportedArguments params of Some given \<Rightarrow> given | None \<Rightarrow> [])
       (supportedArguments st0)"
  define st1 where "st1 = st0\<lparr>supportedArguments := reg\<rparr>"
  define st2 where
    "st2 = st1\<lparr>heap := (heap st1)(fresh st1 \<mapsto> buckets tokens), fresh := Suc (fresh st1)\<rparr>"
  let ?st3 = "before_dispatch st params tokens"
  have a: "argv st1 = Some tokens" using assms(1) by (simp add: st1_def st0_def)
  have p: "parseInputArguments (st0\<lparr>supportedArguments := reg\<rparr>) = (Inr (fresh st1), st2)"
    using parseInputArguments_buckets [OF a] by (simp add: st2_def st1_def)
  have h: "heap st2 (fresh st1) = Some (buckets tokens)" by (simp add: st2_def)
  have s: "?st3 = st2\<lparr>heap := (heap st2)(fresh st1 \<mapsto> obj_delete ''unknowns'' (buckets tokens))\<rparr>"
    by (simp add: before_dispatch_def obj_delete_buckets st2_def st1_def st0_def reg_def)
  have v: "validate_keys ?st3 (Object_keys (obj_delete ''unknowns'' (buckets tokens)))
      = (Inr (), ?st3)"
    using assms(2)
    by (intro validate_keys_all)
      (simp add: obj_delete_buckets Object_keys_flag_buckets set_first_occurrences)
  have q: "processParsedArguments st2 (fresh st1) = (Inr (fresh st1), ?st3)"
    using h s v by (rule processParsedArguments_recognized)
  have g: "heap ?st3 (fresh st1) = Some (flag_buckets tokens)"
    by (simp add: before_dispatch_def st1_def st0_def)
  have k: "Object_keys (flag_buckets tokens) = [] \<longleftrightarrow> flag_buckets tokens = []"
    by (simp add: Object_keys_flag_buckets) (simp add: flag_buckets_def)
  have c: "console ?st3 = console st" by (simp add: before_dispatch_def)
  have "run st params = run_from_merge st0 params"
    by (simp add: run_def st0_def)
  also have "\<dots> =
      (if Object_keys (flag_buckets tokens) = [] then
         (Exited 1,
          ?st3\<lparr>console := console ?st3
               @ [Log [''No input flags provided. Run '' @ CHR 0x27 # cliToolName ?st3
                       @ '' -h' for supported usage.'']]\<rparr>)
       else dispatch ?st3 (Object_entries (flag_buckets tokens)))"
    using p q g reg_def by (rule run_from_merge_steps)
  finally show ?thesis
    by (simp only: k c Object_entries_flag_buckets)
qed

text \<open>
  Claim C7. When the argument list holds no flag token, so that no key remains once the
  reserved bucket has been removed, \<open>run\<close> prints the hint about missing flags, with the
  tool name it was given, and ends the process with exit status 1. No handler is called:
  the record of handler calls is unchanged.
\<close>

theorem run_without_flags:
  assumes "argv st = Some tokens" and "\<forall>t \<in> set tokens. \<not> is_flag t"
  shows "fst (run st params) = Exited 1
         \<and> console (snd (run st params)) =
             console st
             @ [Log [''No input flags provided. Run '' @ CHR 0x27
                       # (case p_cliToolName params of Some n \<Rightarrow> n | None \<Rightarrow> ''my-cli'')
                     @ '' -h' for supported usage.'']]
         \<and> trace (snd (run st params)) = trace st
         \<and> heap (snd (run st params)) (fresh st) = Some []"
proof -
  have e: "flag_buckets tokens = []"
    using assms(2) by (simp add: flag_buckets_empty)
  have "\<forall>t \<in> set tokens. is_flag t \<longrightarrow>
      t \<in> set (Object_keys (supportedArguments (before_dispatch st params tokens)))"
    using assms(2) by simp
  from run_recognized [OF assms(1) this] e show ?thesis
    by (simp add: before_dispatch_def)
qed

theorem run_without_flags_witness:
  "argv (loaded (Some [''node'', ''script.js'']) (\<lambda>n. (None, []))) = Some [''node'', ''script.js'']
   \<and> \<not> is_flag ''node'' \<and> \<not> is_flag ''script.js''
   \<and> fst (run (loaded (Some [''node'', ''script.js'']) (\<lambda>n. (None, [])))
             \<lparr>p_cliToolName = Some ''dx'', p_supportedArguments = None\<rparr>) = Exited 1
   \<and> console (snd (run (loaded (Some [''node'', ''script.js'']) (\<lambda>n. (None, [])))
             \<lparr>p_cliToolName = Some ''dx'', p_supportedArguments = None\<rparr>))
       = [Log [''No input flags provided. Run 'dx -h' for supported usage.'']]
   \<and> trace (snd (run (loaded (Some [''node'', ''script.js'']) (\<lambda>n. (None, [])))
             \<lparr>p_cliToolName = Some ''dx'', p_supportedArguments = None\<rparr>)) = []"
proof -
  let ?st = "loaded (Some [''node'', ''script.js'']) (\<lambda>n. (None, []))"
  have a: "argv ?st = Some [''node'', ''script.js'']" by (simp add: loaded_def)
  have f: "\<not> is_flag ''node''" "\<not> is_flag ''script.js''"
    by (simp_all add: is_flag_def charAt_def)
  then have n: "\<forall>t \<in> set [''node'', ''script.js'']. \<not> is_flag t" by simp
  from run_without_flags [OF a n, of "\<lparr>p_cliToolName = Some ''dx'', p_supportedArguments = None\<rparr>"]
    a f
  show ?thesis by (simp add: loaded_def)
qed

subsection \<open>Dispatch\<close>








subsection \<open>The usage table\<close>

lemma find_snoc:
  "find P (xs @ [x]) = (case find P xs of Some y \<Rightarrow> Some y | None \<Rightarrow> if P x then Some x else None)"
  by (induction xs) auto

lemma find_None_filter: "find P xs = None \<longleftrightarrow> filter P xs = []"
  by (induction xs) auto

lemma has_own_usage_table:
  "has_own n (usage_table entries) \<longleftrightarrow> n \<in> (\<lambda>e. d_name (snd e)) ` set entries"
  by (auto simp: has_own_def usage_table_def set_first_occurrences image_iff)

lemma usage_table_snoc_new:
  assumes "d_name d \<notin> (\<lambda>e. d_name (snd e)) ` set entries"
  shows "usage_table (entries @ [(t, d)]) =
     usage_table entries
     @ [(d_name d,
         \<lparr>Flags = [t],
          Options = (case d_allowedOptions d of Some os \<Rightarrow> os | None \<Rightarrow> []),
          Description = d_description d\<rparr>)]"
proof -
  have n: "filter (\<lambda>e. d_name (snd e) = d_name d) entries = []"
    using assms by (force simp: filter_empty_conv)
  then have f: "find (\<lambda>e. d_name (snd e) = d_name d) entries = None"
    by (simp add: find_None_filter)
  have o: "m \<in> (\<lambda>e. d_name (snd e)) ` set entries \<Longrightarrow> d_name d \<noteq> m" for m
    using assms by auto
  show ?thesis
    using assms
    by (auto simp: usage_table_def first_occurrences_snoc set_first_occurrences find_snoc n f o
        split: option.splits)
qed

lemma usage_table_snoc_old:
  assumes "d_name d \<in> (\<lambda>e. d_name (snd e)) ` set entries"
  shows "usage_table (entries @ [(t, d)]) =
     obj_modify (d_name d) (\<lambda>row. row\<lparr>Flags := Flags row @ [t]\<rparr>) (usage_table entries)"
proof -
  have "filter (\<lambda>e. d_name (snd e) = d_name d) entries \<noteq> []"
    using assms by (force simp: filter_empty_conv)
  then obtain y where f: "find (\<lambda>e. d_name (snd e) = d_name d) entries = Some y"
    by (cases "find (\<lambda>e. d_name (snd e) = d_name d) entries") (simp_all add: find_None_filter)
  show ?thesis
    using assms f
    by (auto simp: usage_table_def obj_modify_def first_occurrences_snoc find_snoc
        split: option.splits)
qed

lemma usage_step_table:
  assumes "\<forall>e \<in> set entries. d_name (snd e) \<noteq> ''hasOwnProperty''"
    and "d_name d \<noteq> ''__proto__''"
  shows "usage_step (usage_table entries) (t, d) = Inr (usage_table (entries @ [(t, d)]))"
proof -
  have h: "\<not> has_own ''hasOwnProperty'' (usage_table entries)"
    using assms(1) by (auto simp: has_own_usage_table)
  show ?thesis
  proof (cases "d_name d \<in> (\<lambda>e. d_name (snd e)) ` set entries")
    case True
    then show ?thesis
      using h by (simp add: usage_step_def has_own_usage_table usage_table_snoc_old)
  next
    case False
    then show ?thesis
      using h assms(2)
      by (simp add: usage_step_def has_own_usage_table usage_table_snoc_new obj_set_def)
  qed
qed

lemma usage_loop_table:
  "\<forall>e \<in> set (done @ rest). d_name (snd e) \<noteq> ''hasOwnProperty'' \<and> d_name (snd e) \<noteq> ''__proto__'' \<Longrightarrow>
     usage_loop (usage_table done) rest = Inr (usage_table (done @ rest))"
proof (induction rest arbitrary: "done")
  case Nil
  show ?case by simp
next
  case (Cons e rest)
  obtain t d where e: "e = (t, d)" by (cases e)
  have "usage_step (usage_table done) (t, d) = Inr (usage_table (done @ [(t, d)]))"
    using Cons.prems e by (intro usage_step_table) auto
  moreover have "usage_loop (usage_table (done @ [e])) rest = Inr (usage_table ((done @ [e]) @ rest))"
    using Cons.prems by (intro Cons.IH) auto
  ultimately show ?case using e by simp
qed

lemma usage_table_Nil: "usage_table [] = []"
  by (simp add: usage_table_def first_occurrences_def)

lemma outputSupportedUsage_table:
  assumes "\<forall>e \<in> set (supportedArguments st).
      d_name (snd e) \<noteq> ''hasOwnProperty'' \<and> d_name (snd e) \<noteq> ''__proto__''"
  shows "outputSupportedUsage st =
     (Inr (),
      st\<lparr>console := console st
           @ [Log [cliToolName st @ '' CLI usage below: ''],
              Table (usage_table (Object_entries (supportedArguments st)))]\<rparr>)"
proof -
  have "usage_loop (usage_table []) (Object_entries (supportedArguments st))
      = Inr (usage_table ([] @ Object_entries (supportedArguments st)))"
    using assms by (intro usage_loop_table) (simp add: set_Object_entries)
  then show ?thesis
    by (simp add: outputSupportedUsage_def usage_table_Nil)
qed

lemma find_Some_first:
  "filter P xs \<noteq> [] \<Longrightarrow> \<exists>x. find P xs = Some x \<and> x \<in> set xs \<and> P x"
  by (induction xs) (auto split: if_splits)

lemma map_of_usage_table:
  assumes "n \<in> (\<lambda>e. d_name (snd e)) ` set entries"
  shows "\<exists>row first.
       map_of (usage_table entries) n = Some row
       \<and> Flags row = map fst (filter (\<lambda>e. d_name (snd e) = n) entries)
       \<and> find (\<lambda>e. d_name (snd e) = n) entries = Some first
       \<and> first \<in> set entries \<and> d_name (snd first) = n
       \<and> Options row = (case d_allowedOptions (snd first) of Some os \<Rightarrow> os | None \<Rightarrow> [])
       \<and> Description row = d_description (snd first)"
proof -
  have "filter (\<lambda>e. d_name (snd e) = n) entries \<noteq> []"
    using assms by (force simp: filter_empty_conv)
  from find_Some_first [OF this] obtain first where
    f: "find (\<lambda>e. d_name (snd e) = n) entries = Some first" "first \<in> set entries"
    "d_name (snd first) = n"
    by blast
  have "n \<in> set (first_occurrences (map (\<lambda>e. d_name (snd e)) entries))"
    using assms by (simp add: set_first_occurrences)
  then have "map_of (usage_table entries) n =
      Some \<lparr>Flags = map fst (filter (\<lambda>e. d_name (snd e) = n) entries),
            Options = (case d_allowedOptions (snd first) of Some os \<Rightarrow> os | None \<Rightarrow> []),
            Description = d_description (snd first)\<rparr>"
    unfolding usage_table_def by (subst map_of_tabulate) (simp_all add: f)
  with f show ?thesis by simp
qed

text \<open>
  Claim C9, as the code has it. Let no canonical name of the registry be \<open>__proto__\<close> or
  \<open>hasOwnProperty\<close>. Then \<open>outputSupportedUsage\<close> prints the header and the usage table of
  the registry. The table has exactly one row for each canonical name. The row lists
  every token of the registry whose definition has that name, in the order of the keys of
  the registry, and its options and description are those of the first such token.
\<close>

theorem outputSupportedUsage_one_row_per_name:
  assumes "\<forall>e \<in> set (supportedArguments st).
      d_name (snd e) \<noteq> ''hasOwnProperty'' \<and> d_name (snd e) \<noteq> ''__proto__''"
  shows "outputSupportedUsage st =
           (Inr (),
            st\<lparr>console := console st
                 @ [Log [cliToolName st @ '' CLI usage below: ''],
                    Table (usage_table (Object_entries (supportedArguments st)))]\<rparr>)
         \<and> distinct (map fst (usage_table (Object_entries (supportedArguments st))))
         \<and> fst ` set (usage_table (Object_entries (supportedArguments st)))
             = (\<lambda>e. d_name (snd e)) ` set (supportedArguments st)
         \<and> (\<forall>e \<in> set (supportedArguments st).
               \<exists>row. map_of (usage_table (Object_entries (supportedArguments st))) (d_name (snd e))
                        = Some row
                     \<and> fst e \<in> set (Flags row)
                     \<and> Flags row = map fst (filter (\<lambda>e'. d_name (snd e') = d_name (snd e))
                                               (Object_entries (supportedArguments st)))
                     \<and> (\<exists>first \<in> set (supportedArguments st).
                           find (\<lambda>e'. d_name (snd e') = d_name (snd e))
                             (Object_entries (supportedArguments st)) = Some first
                           \<and> d_name (snd first) = d_name (snd e)
                           \<and> Options row = (case d_allowedOptions (snd first) of
                                               Some os \<Rightarrow> os | None \<Rightarrow> [])
                           \<and> Description row = d_description (snd first)))"
proof -
  let ?entries = "Object_entries (supportedArguments st)"
  have 1: "outputSupportedUsage st =
      (Inr (),
       st\<lparr>console := console st
            @ [Log [cliToolName st @ '' CLI usage below: ''], Table (usage_table ?entries)]\<rparr>)"
    using assms by (rule outputSupportedUsage_table)
  have 2: "distinct (map fst (usage_table ?entries))"
    by (simp add: usage_table_def comp_def distinct_first_occurrences)
  have 3: "fst ` set (usage_table ?entries) = (\<lambda>e. d_name (snd e)) ` set (supportedArguments st)"
    by (simp add: usage_table_def set_first_occurrences set_Object_entries image_image)
  have 4: "\<exists>row. map_of (usage_table ?entries) (d_name (snd e)) = Some row
      \<and> fst e \<in> set (Flags row)
      \<and> Flags row = map fst (filter (\<lambda>e'. d_name (snd e') = d_name (snd e)) ?entries)
      \<and> (\<exists>first \<in> set (supportedArguments st).
            find (\<lambda>e'. d_name (snd e') = d_name (snd e)) ?entries = Some first
            \<and> d_name (snd first) = d_name (snd e)
            \<and> Options row = (case d_allowedOptions (snd first) of Some os \<Rightarrow> os | None \<Rightarrow> [])
            \<and> Description row = d_description (snd first))"
    if "e \<in> set (supportedArguments st)" for e
  proof -
    from that have m: "e \<in> set ?entries" by (simp add: set_Object_entries)
    then have "d_name (snd e) \<in> (\<lambda>e. d_name (snd e)) ` set ?entries" by (rule imageI)
    from map_of_usage_table [OF this] obtain row first where
      r: "map_of (usage_table ?entries) (d_name (snd e)) = Some row"
      "Flags row = map fst (filter (\<lambda>e'. d_name (snd e') = d_name (snd e)) ?entries)"
      "find (\<lambda>e'. d_name (snd e') = d_name (snd e)) ?entries = Some first"
      "first \<in> set ?entries" "d_name (snd first) = d_name (snd e)"
      "Options row = (case d_allowedOptions (snd first) of Some os \<Rightarrow> os | None \<Rightarrow> [])"
      "Description row = d_description (snd first)"
      by blast
    from m have "fst e \<in> set (Flags row)" by (simp add: r(2))
    moreover from r(4) have "first \<in> set (supportedArguments st)"
      by (simp add: set_Object_entries)
    ultimately show ?thesis using r by blast
  qed
  from 1 2 3 4 show ?thesis by blast
qed

theorem outputSupportedUsage_one_row_per_name_witness:
  "d_name help_flag \<noteq> ''hasOwnProperty'' \<and> d_name help_flag \<noteq> ''__proto__''
   \<and> d_name version \<noteq> ''hasOwnProperty'' \<and> d_name version \<noteq> ''__proto__''
   \<and> outputSupportedUsage (loaded None (\<lambda>n. (None, []))) =
       (Inr (),
        (loaded None (\<lambda>n. (None, [])))
          \<lparr>console :=
             [Log [''my-cli CLI usage below: ''],
              Table
                [(''help'',
                  \<lparr>Flags = [''-h'', ''--help''], Options = [],
                   Description = ''Prints the currently supported usage of the CLI''\<rparr>),
                 (''version'',
                  \<lparr>Flags = [''-v'', ''--version''], Options = [],
                   Description = ''Prints the currently installed version of the my-cli CLI''\<rparr>)]]\<rparr>)"
proof -
  let ?st = "loaded None (\<lambda>n. (None, []))"
  have n: "d_name help_flag \<noteq> ''hasOwnProperty''" "d_name help_flag \<noteq> ''__proto__''"
    "d_name version \<noteq> ''hasOwnProperty''" "d_name version \<noteq> ''__proto__''"
    by (simp_all add: help_flag_def version_def)
  have s: "supportedArguments ?st = builtin_supportedArguments" by (simp add: loaded_def)
  have a: "\<forall>e \<in> set (supportedArguments ?st).
      d_name (snd e) \<noteq> ''hasOwnProperty'' \<and> d_name (snd e) \<noteq> ''__proto__''"
    by (simp add: s builtin_supportedArguments_def n)
  have e: "Object_entries builtin_supportedArguments = builtin_supportedArguments"
    by (rule Object_entries_flags) (simp add: builtin_supportedArguments_def charAt_def)
  have t: "usage_table builtin_supportedArguments =
      [(''help'',
        \<lparr>Flags = [''-h'', ''--help''], Options = [],
         Description = ''Prints the currently supported usage of the CLI''\<rparr>),
       (''version'',
        \<lparr>Flags = [''-v'', ''--version''], Options = [],
         Description = ''Prints the currently installed version of the my-cli CLI''\<rparr>)]"
    by (simp add: usage_table_def builtin_supportedArguments_def first_occurrences_def
        help_flag_def version_def)
  from outputSupportedUsage_one_row_per_name [OF a]
  have "outputSupportedUsage ?st =
      (Inr (),
       ?st\<lparr>console := console ?st
            @ [Log [cliToolName ?st @ '' CLI usage below: ''],
               Table (usage_table (Object_entries (supportedArguments ?st)))]\<rparr>)"
    by (rule conjunct1)
  then have "outputSupportedUsage ?st =
      (Inr (),
       ?st\<lparr>console := [Log [''my-cli CLI usage below: ''],
               Table (usage_table builtin_supportedArguments)]\<rparr>)"
    by (simp add: s e) (simp add: loaded_def)
  then show ?thesis using n by (simp only: t simp_thms)
qed

theorem outputSupportedUsage_shared_name_counterexample:
  "map_of shared_name_registry ''-b''
     = Some \<lparr>d_name = ''x'', d_description = ''B'', d_allowedOptions = Some [''o''],
             d_f = print_arguments\<rparr>
   \<and> map_of shared_name_registry ''-p''
     = Some \<lparr>d_name = ''__proto__'', d_description = ''P'', d_allowedOptions = None,
             d_f = print_arguments\<rparr>
   \<and> outputSupportedUsage
        ((loaded None (\<lambda>n. (None, [])))\<lparr>supportedArguments := shared_name_registry\<rparr>) =
       (Inr (),
        (loaded None (\<lambda>n. (None, [])))
          \<lparr>supportedArguments := shared_name_registry,
           console :=
             [Log [''my-cli CLI usage below: ''],
              Table [(''x'', \<lparr>Flags = [''-a'', ''-b''], Options = [], Description = ''A''\<rparr>)]]\<rparr>)"
proof -
  have e: "Object_entries shared_name_registry = shared_name_registry"
    by (rule Object_entries_flags) (simp add: shared_name_registry_def charAt_def)
  have l: "usage_loop [] shared_name_registry
      = Inr [(''x'', \<lparr>Flags = [''-a'', ''-b''], Options = [], Description = ''A''\<rparr>)]"
    by (simp add: shared_name_registry_def usage_step_def has_own_def obj_set_def obj_modify_def)
  show ?thesis
    by (simp add: outputSupportedUsage_def e l) (simp add: loaded_def shared_name_registry_def)
qed

end
